theory Spec2Isabelle
  imports Main "HOL-Library.Word" "HOL-Library.Monad_Syntax"
begin

unbundle bit_operations_syntax

section \<open>The traceroute engine of \<^verbatim>\<open>icmp/trace.go\<close>: data model\<close>

text \<open>
  The development embeds \<^verbatim>\<open>src/icmp/trace.go\<close>. Go's \<^verbatim>\<open>int\<close> is 64 bits wide
  on the platforms considered. It is modelled by \<^typ>\<open>int\<close>; the counters of the
  program stay far below 64 bits, and where a value that the command line sets freely
  enters a subtraction (the packet size in \<^verbatim>\<open>udpMessage\<close>), the wrap-around is
  written out. The fixed-width unsigned types are words, a byte slice is a list of
  bytes, a \<^verbatim>\<open>nil\<close> error is \<^term>\<open>None\<close>.
\<close>

type_synonym byte = "8 word"
type_synonym uint16 = "16 word"
type_synonym uint32 = "32 word"
type_synonym uint64 = "64 word"

text \<open>\<^verbatim>\<open>net.IP\<close> is a byte slice (4 or 16 bytes when valid, empty when nil).\<close>

type_synonym IP = "byte list"

text \<open>
  Errors: a \<^verbatim>\<open>syscall.Errno\<close>, an error made by \<^verbatim>\<open>fmt.Errorf\<close> or returned by a
  library, and \<^verbatim>\<open>os.NewSyscallError\<close> wrapping another one.
\<close>

datatype error = Errno nat | ErrMsg string | SyscallError string error

definition EAGAIN :: error where
  "EAGAIN = Errno 11"

text \<open>
  A \<^verbatim>\<open>float64\<close> by its value: sign, mantissa and binary exponent
  (\<open>\<plusminus> m \<sqdot> 2\<^sup>e\<close>), or one of the special values. Arithmetic on floats is not
  modelled; only the literal zero, the comparison with zero and the fixed-point
  formatting of \<^verbatim>\<open>fmt\<close> are.
\<close>

datatype float64 = F64 bool nat int | F64Inf bool | F64NaN

definition f64_zero :: float64 where
  "f64_zero = F64 False 0 0"

fun f64_is_zero :: "float64 \<Rightarrow> bool" where
  "f64_is_zero (F64 s m e) = (m = 0)"
| "f64_is_zero _ = False"

text \<open>\<^verbatim>\<open>type TCPOption struct { kind uint8; length uint8; data []byte }\<close>\<close>

record TCPOption =
  kind :: byte
  length' :: byte
  data :: "byte list"

text \<open>
  \<^verbatim>\<open>Whois\<close> and \<^verbatim>\<open>HopResp\<close> are declared in another file of the package; their
  fields are read off the positional literal
  \<^verbatim>\<open>HopResp{hop, "", "", 0, false, nil, Whois{}}\<close> and the selectors used in
  \<^verbatim>\<open>trace.go\<close>. The fields of \<^verbatim>\<open>HopResp\<close> carry the prefix \<open>h_\<close> here, because
  \<open>ip\<close>, \<open>last\<close> and \<open>whois\<close> name other things in this theory.
\<close>

record Whois =
  holder :: string
  asn :: float64

definition Whois0 :: Whois where
  "Whois0 = \<lparr>holder = [], asn = f64_zero\<rparr>"

record HopResp =
  h_num :: int
  h_hop :: string
  h_ip :: string
  h_elapsed :: float64
  h_last :: bool
  h_err :: "error option"
  h_whois :: Whois

text \<open>A call either returns or panics.\<close>

datatype 'a exec = Panics | Returns (returned: 'a)

section \<open>Formatting: the fragment of \<^verbatim>\<open>fmt.Sprintf\<close> that \<^verbatim>\<open>Marshal\<close> uses\<close>

definition digit_char :: "nat \<Rightarrow> char" where
  "digit_char d = ''0123456789'' ! d"

fun digits :: "nat \<Rightarrow> string" where
  "digits n =
     (if n < 10 then [digit_char n]
      else digits (n div 10) @ [digit_char (n mod 10)])"

declare digits.simps [simp del]

text \<open>\<^verbatim>\<open>%d\<close> on an integer.\<close>

definition fmt_d :: "int \<Rightarrow> string" where
  "fmt_d i = (if i < 0 then CHR ''-'' # digits (nat (- i)) else digits (nat i))"

text \<open>\<^verbatim>\<open>%t\<close> on a boolean.\<close>

definition fmt_t :: "bool \<Rightarrow> string" where
  "fmt_t b = (if b then ''true'' else ''false'')"

text \<open>
  Rounding \<open>m \<sqdot> 2\<^sup>e \<sqdot> 10\<^sup>p\<close> to an integer, ties to even: what
  \<^verbatim>\<open>strconv\<close> does to the exact decimal expansion of the float.
\<close>

definition round_scaled :: "nat \<Rightarrow> int \<Rightarrow> nat \<Rightarrow> nat" where
  "round_scaled m e p =
     (if 0 \<le> e then m * 2 ^ nat e * 10 ^ p
      else
        (let n = m * 10 ^ p; d = 2 ^ nat (- e); q = n div d; r = n mod d
         in if d < 2 * r then q + 1
            else if 2 * r < d then q
            else if even q then q else q + 1))"

fun pad_zeros :: "nat \<Rightarrow> string \<Rightarrow> string" where
  "pad_zeros p s = replicate (p - length s) (CHR ''0'') @ s"

text \<open>\<^verbatim>\<open>%.<p>f\<close> on a float.\<close>

fun fmt_f :: "nat \<Rightarrow> float64 \<Rightarrow> string" where
  "fmt_f p (F64 s m e) =
     (let q = round_scaled m e p
      in (if s then ''-'' else [])
         @ digits (q div 10 ^ p)
         @ (if 0 < p then CHR ''.'' # pad_zeros p (digits (q mod 10 ^ p)) else []))"
| "fmt_f p (F64Inf s) = (if s then ''-Inf'' else ''+Inf'')"
| "fmt_f p F64NaN = ''NaN''"

datatype arg = AInt int | AStr string | AFloat float64 | ABool bool

text \<open>A verb of one letter applied to an operand of the matching type.\<close>

fun fmt_verb :: "char \<Rightarrow> arg \<Rightarrow> string option" where
  "fmt_verb c (AInt i) = (if c = CHR ''d'' then Some (fmt_d i) else None)"
| "fmt_verb c (AStr s) = (if c = CHR ''s'' then Some s else None)"
| "fmt_verb c (ABool b) = (if c = CHR ''t'' then Some (fmt_t b) else None)"
| "fmt_verb c (AFloat x) = None"

datatype fstate = Plain | Pct | PctDot | PctPrec nat

definition is_digit :: "char \<Rightarrow> bool" where
  "is_digit c = ((48 :: nat) \<le> of_char c \<and> (of_char c :: nat) \<le> 57)"

text \<open>
  The format string is read from left to right. The result is \<^term>\<open>None\<close> outside
  the fragment modelled here (other verbs, flags, operands missing, left over or of
  another type), where Go prints a \<^verbatim>\<open>%!\<close> diagnostic in the output.
\<close>

fun Sprintf_from :: "fstate \<Rightarrow> string \<Rightarrow> arg list \<Rightarrow> string option" where
  "Sprintf_from Plain [] args = (if args = [] then Some [] else None)"
| "Sprintf_from Plain (c # fs) args =
     (if c = CHR ''%'' then Sprintf_from Pct fs args
      else map_option ((#) c) (Sprintf_from Plain fs args))"
| "Sprintf_from Pct (c # fs) args =
     (if c = CHR ''.'' then Sprintf_from PctDot fs args
      else (case args of
              [] \<Rightarrow> None
            | a # as \<Rightarrow>
                (case fmt_verb c a of
                   None \<Rightarrow> None
                 | Some out \<Rightarrow> map_option ((@) out) (Sprintf_from Plain fs as))))"
| "Sprintf_from PctDot (c # fs) args =
     (if is_digit c then Sprintf_from (PctPrec ((of_char c :: nat) - 48)) fs args else None)"
| "Sprintf_from (PctPrec p) (c # fs) args =
     (if c = CHR ''f''
      then (case args of
              AFloat x # as \<Rightarrow> map_option ((@) (fmt_f p x)) (Sprintf_from Plain fs as)
            | _ \<Rightarrow> None)
      else None)"
| "Sprintf_from _ [] args = None"

definition Sprintf :: "string \<Rightarrow> arg list \<Rightarrow> string option" where
  "Sprintf f args = Sprintf_from Plain f args"

text \<open>\<^verbatim>\<open>func (h *HopResp) Marshal() string\<close>, with the format string of the source.\<close>

definition Marshal :: "HopResp \<Rightarrow> string option" where
  \<open>Marshal h =
     Sprintf ''{ "Id": %d, "Hop": "%s", "IP" : "%s", "Elapsed": %.3f, "Holder": "%s", "ASN": %.0f, "Last": %t }''
       [AInt (h_num h), AStr (h_hop h), AStr (h_ip h), AFloat (h_elapsed h),
        AStr (holder (h_whois h)), AFloat (asn (h_whois h)), ABool (h_last h)]\<close>

section \<open>Wire codecs\<close>

text \<open>\<^verbatim>\<open>binary.Write(buf, binary.BigEndian, v)\<close> for the unsigned types.\<close>

definition be16 :: "uint16 \<Rightarrow> byte list" where
  "be16 v = [ucast (drop_bit 8 v), ucast v]"

definition be32 :: "uint32 \<Rightarrow> byte list" where
  "be32 v = [ucast (drop_bit 24 v), ucast (drop_bit 16 v), ucast (drop_bit 8 v), ucast v]"

definition be64 :: "uint64 \<Rightarrow> byte list" where
  "be64 v = [ucast (drop_bit 56 v), ucast (drop_bit 48 v), ucast (drop_bit 40 v),
             ucast (drop_bit 32 v), ucast (drop_bit 24 v), ucast (drop_bit 16 v),
             ucast (drop_bit 8 v), ucast v]"

text \<open>\<^verbatim>\<open>binary.BigEndian.Uint16\<close>: the decoder of a 16-bit field.\<close>

definition Uint16 :: "byte list \<Rightarrow> uint16" where
  "Uint16 b = push_bit 8 (ucast (b ! 0)) OR ucast (b ! 1)"

text \<open>
  The value that a 64-bit \<^verbatim>\<open>int\<close> holds after an operation whose exact result is
  \<open>x\<close>: \<open>x\<close> itself between \<open>- 2\<^sup>6\<^sup>3\<close> and \<open>2\<^sup>6\<^sup>3 - 1\<close>, wrapped around otherwise.
\<close>

definition int64 :: "int \<Rightarrow> int" where
  "int64 x = (x + 2 ^ 63) mod 2 ^ 64 - 2 ^ 63"

text \<open>
  \<^verbatim>\<open>make([]byte, n)\<close> panics when \<open>n\<close> exceeds the limit \<^verbatim>\<open>maxAlloc\<close> of the
  runtime, \<open>2\<^sup>4\<^sup>8\<close> bytes on 64-bit Linux. Below the limit the allocation is taken to
  succeed (a machine without that much memory ends the program instead).
\<close>

definition maxAlloc :: int where
  "maxAlloc = 2 ^ 48"

text \<open>
  \<^verbatim>\<open>func udpMessage(lport, rport, pSize int, isIPv4 bool) []byte\<close>. The subtraction
  from \<^verbatim>\<open>pSize\<close> wraps around; the conversion \<^verbatim>\<open>uint16(8+pSize)\<close> keeps the low 16
  bits, which the wrap-around of the sum does not change.
\<close>

definition udpMessage :: "int \<Rightarrow> int \<Rightarrow> int \<Rightarrow> bool \<Rightarrow> byte list exec" where
  "udpMessage lport rport pSize isIPv4 =
     (let pSize1 = int64 (if isIPv4 then pSize - (20 + 8) else pSize - (40 + 8));
          buf = be16 (word_of_int lport)
                @ be16 (word_of_int rport)
                @ be16 (word_of_int (8 + pSize1))
                @ be16 0
      in if 0 < pSize1
         then (if maxAlloc < pSize1 then Panics
               else Returns (buf @ replicate (nat pSize1) 0))
         else Returns buf)"

text \<open>
  The loop of \<^verbatim>\<open>tcpMessage\<close> over the options: the kind, and the length and the data
  only when the length exceeds 1.
\<close>

fun write_options :: "TCPOption list \<Rightarrow> byte list" where
  "write_options [] = []"
| "write_options (option # rest) =
     (kind option # (if 1 < length' option then length' option # data option else []))
     @ write_options rest"

text \<open>
  \<^verbatim>\<open>func tcpMessage(lport, rport, pSize uint16, isIPv4 bool) []byte\<close>. The two values
  the function draws from its environment are arguments here: \<open>rnd\<close> is
  \<^verbatim>\<open>rand.Uint32()\<close> and \<open>now\<close> is \<^verbatim>\<open>time.Now().Unix()\<close>.
\<close>

definition tcpMessage ::
  "uint16 \<Rightarrow> uint16 \<Rightarrow> uint16 \<Rightarrow> bool \<Rightarrow> uint32 \<Rightarrow> int \<Rightarrow> byte list" where
  "tcpMessage lport rport pSize isIPv4 rnd now =
     (let offset = (8 + 3 :: int);
          mix = push_bit 12 (word_of_int offset :: uint16)
                OR push_bit 9 (0 :: uint16)
                OR push_bit 6 (0 :: uint16)
                OR (2 :: uint16);
          buf = be16 lport @ be16 rport @ be32 rnd @ be32 0
                @ be16 mix @ be16 0xFFFF @ be16 0x0000 @ be16 0;
          tcpOptions =
            [\<lparr>kind = 2, length' = 4, data = [0x05, 0xb4]\<rparr>,
             \<lparr>kind = 3, length' = 3, data = [0x05]\<rparr>,
             \<lparr>kind = 4, length' = 2, data = [0x1]\<rparr>,
             \<lparr>kind = 8, length' = 10, data = be64 (word_of_int now)\<rparr>,
             \<lparr>kind = 0, length' = 0, data = []\<rparr>];
          tcp = buf @ write_options tcpOptions;
          pad = offset * 4 - int (length tcp)
      in tcp @ replicate (nat pad) 0)"

text \<open>
  \<^verbatim>\<open>func checkSum(data []byte) uint16\<close>: the first loop adds the 16-bit words, the
  second folds the carries. \<open>len\<close> is \<^verbatim>\<open>len(data) & (^1)\<close>.
\<close>

function checkSum_sum :: "byte list \<Rightarrow> nat \<Rightarrow> nat \<Rightarrow> uint32 \<Rightarrow> uint32" where
  "checkSum_sum bs i len sum32 =
     (if i < len
      then checkSum_sum bs (i + 2) len
             (sum32 + (push_bit 8 (ucast (bs ! i)) + ucast (bs ! (i + 1))))
      else sum32)"
  by pat_completeness auto
termination
  by (relation "measure (\<lambda>(bs, i, len, sum32). len - i)") auto

function checkSum_fold :: "uint32 \<Rightarrow> uint32" where
  "checkSum_fold sum32 =
     (if 0 < drop_bit 16 sum32
      then checkSum_fold (drop_bit 16 sum32 + (sum32 AND 0xffff))
      else sum32)"
  by pat_completeness auto
termination
proof (relation "measure unat")
  show "wf (measure (unat :: uint32 \<Rightarrow> nat))" by simp
next
  fix s :: uint32
  assume pos: "0 < drop_bit 16 s"
  have m: "(0xffff :: uint32) = mask 16" by (simp add: mask_eq_exp_minus_1)
  have lo: "unat (s AND 0xffff) = unat s mod 65536"
    unfolding m by (simp add: take_bit_eq_mask [symmetric] take_bit_eq_mod unat_mod)
  have hi: "unat (drop_bit 16 s) = unat s div 65536"
    by (simp add: drop_bit_eq_div unat_div)
  have b: "unat s < 2 ^ 32" using unsigned_less [of s, where 'a = nat] by simp
  have h0: "0 < unat s div 65536"
    using pos hi by (simp add: word_less_nat_alt)
  have "unat (drop_bit 16 s + (s AND 0xffff))
        = (unat s div 65536 + unat s mod 65536) mod 2 ^ 32"
    by (simp add: unat_word_ariths hi lo)
  also have "\<dots> = unat s div 65536 + unat s mod 65536"
    using b by (intro mod_less) simp
  also have "\<dots> < unat s"
  proof -
    define h l where "h = unat s div 65536" and "l = unat s mod 65536"
    have "unat s = 65536 * h + l" unfolding h_def l_def by simp
    moreover have "0 < h" using h0 by (simp add: h_def)
    ultimately show ?thesis unfolding h_def [symmetric] l_def [symmetric] by linarith
  qed
  finally show "(drop_bit 16 s + (s AND 0xffff), s) \<in> measure unat" by simp
qed

definition checkSum :: "byte list \<Rightarrow> uint16" where
  "checkSum bs =
     (let len = nat (int (length bs) AND NOT 1);
          sum1 = checkSum_sum bs 0 len 0;
          sum2 = (if int (length bs) AND 1 \<noteq> 0 then sum1 + ucast (bs ! len) else sum1)
      in ucast (NOT (checkSum_fold sum2)))"

text \<open>
  The checksum as the specification words it: the final odd byte is added shifted
  left by 8 bits. Everything else is the code's.
\<close>

definition checkSum_spec :: "byte list \<Rightarrow> uint16" where
  "checkSum_spec bs =
     (let len = nat (int (length bs) AND NOT 1);
          sum1 = checkSum_sum bs 0 len 0;
          sum2 = (if odd (length bs) then sum1 + push_bit 8 (ucast (bs ! len)) else sum1)
      in ucast (NOT (checkSum_fold sum2)))"

text \<open>
  \<^verbatim>\<open>func setTCPCheckSum(src, dst net.IP, tcpHeader []byte)\<close> writes the checksum into
  bytes 16 and 17 of the header in place; the model returns the new header, and
  \<^term>\<open>None\<close> where the index is out of range and the code panics.
\<close>

definition setTCPCheckSum :: "IP \<Rightarrow> IP \<Rightarrow> byte list \<Rightarrow> byte list option" where
  "setTCPCheckSum src_ip dst_ip tcpHeader =
     (let pd = (0 :: byte);
          prot = (6 :: byte);
          tcpSize = (word_of_nat (length tcpHeader) :: uint16);
          pbuf = src_ip @ dst_ip @ [pd] @ [prot] @ be16 tcpSize;
          header = pbuf @ tcpHeader;
          checksum = checkSum header;
          high = (ucast (drop_bit 8 checksum) :: byte);
          low = (ucast checksum :: byte)
      in if length tcpHeader \<le> 17 then None
         else Some ((tcpHeader[17 := low])[16 := high]))"

section \<open>The tracer and its environment\<close>

text \<open>
  \<^verbatim>\<open>ICMPResp\<close> (declared in another file of the package), with the fields that
  \<^verbatim>\<open>trace.go\<close> reads: \<^verbatim>\<open>typ\<close>, \<^verbatim>\<open>id\<close>, \<^verbatim>\<open>seq\<close>, \<^verbatim>\<open>src\<close>, \<^verbatim>\<open>ip.dst\<close> and \<^verbatim>\<open>ip.id\<close>.
\<close>

record IPHdr =
  ip_dst :: IP
  ip_id :: int

record ICMPResp =
  r_typ :: int
  r_id :: int
  r_seq :: int
  r_src :: IP
  r_ip :: IPHdr

definition ICMPResp0 :: ICMPResp where
  "ICMPResp0 = \<lparr>r_typ = 0, r_id = 0, r_seq = 0, r_src = [], r_ip = \<lparr>ip_dst = [], ip_id = 0\<rparr>\<rparr>"

text \<open>The ICMP type numbers of an echo reply (constants of the package).\<close>

definition IPv4ICMPTypeEchoReply :: int where
  "IPv4ICMPTypeEchoReply = 0"

definition IPv6ICMPTypeEchoReply :: int where
  "IPv6ICMPTypeEchoReply = 129"

definition AF_INET :: int where
  "AF_INET = 2"

definition AF_INET6 :: int where
  "AF_INET6 = 10"

definition IPPROTO_ICMP :: int where
  "IPPROTO_ICMP = 1"

definition IPPROTO_ICMPV6 :: int where
  "IPPROTO_ICMPV6 = 58"

text \<open>\<^verbatim>\<open>net.IPNet\<close>, and the decoded JSON of the prefix service (\<^verbatim>\<open>interface{}\<close>).\<close>

record IPNet =
  net_IP :: IP
  net_Mask :: "byte list"

datatype json =
  JNull | JBool bool | JNum float64 | JStr string | JArr "json list"
  | JObj "(string \<times> json) list"

text \<open>The value of a command-line flag, and the configuration read by \<^verbatim>\<open>NewTrace\<close>.\<close>

datatype flagval = FBool bool | FInt int | FStr string

record Config =
  cfg_Theme :: string
  cfg_Wait :: string

text \<open>
  What \<^verbatim>\<open>syscall.Recvfrom\<close> returns: an error, or a datagram and the address it
  came from.
\<close>

datatype recv = RecvErr error | RecvOK "byte list" IP

text \<open>\<^verbatim>\<open>type Trace struct\<close>: the fields that \<^verbatim>\<open>NewTrace\<close> sets, and \<^verbatim>\<open>ttl\<close> and \<^verbatim>\<open>fd\<close>.\<close>

record Trace =
  host :: string
  ips :: "IP list"
  ip :: IP
  src :: IP
  seq :: int
  family :: int
  proto :: int
  icmp :: bool
  udp :: bool
  tcp :: bool
  pSize :: int
  uiTheme :: string
  wait :: string
  resolve :: bool
  ripe :: bool
  realTime :: bool
  maxTTL :: int
  count :: int
  report :: bool
  km :: bool
  ttl :: int
  fd :: int

text \<open>
  What is written to the network: the \<^verbatim>\<open>ipv4.Header\<close> and the payload given to
  \<^verbatim>\<open>WriteTo\<close>, or the hop limit, the port and the message given to \<^verbatim>\<open>Sendto\<close>.
\<close>

record ipv4_Header =
  Version :: int
  Len :: int
  TotalLen :: int
  Protocol :: int
  ID :: int
  TTL :: int
  Dst :: "IP option"

datatype packet = Packet4 ipv4_Header "byte list" | Packet6 int int IP "byte list"

text \<open>
  The running tracer: the struct, a counter of the interactions with the environment
  so far, and the packets written so far.
\<close>

record machine = Trace +
  tick :: nat
  wire :: "packet list"

text \<open>
  The environment. The first group (up to \<open>growslice\<close>) are functions of the
  libraries and of the other files of the package, taken as they are:
  \<open>ParseDuration\<close> and \<open>ParseCIDR\<close> give \<^term>\<open>None\<close> for their error,
  \<open>IPNet_text\<close> is \<^verbatim>\<open>String\<close> on a network that is not nil, the two parsers of
  received frames give \<^term>\<open>None\<close> when they panic (a frame too short for the bytes
  they index), \<open>ms_of\<close> is \<^verbatim>\<open>d.Seconds() * 1e3\<close> on a duration in nanoseconds,
  \<open>cli_Flag\<close> splits the command line into the target and the flags, and
  \<open>growslice\<close> is the capacity that \<^verbatim>\<open>append\<close> gives the new array of a slice whose
  capacity (the argument) is used up. The second
  group are the results of the system calls and of the other interactions, the
  \<open>k\<close>-th interaction of a run reading its result at index \<open>k\<close>. The clock and the
  random generator are interactions too (\<^verbatim>\<open>rand.Seed\<close> only changes which numbers
  follow, so it has no counterpart). \<open>chan_closed\<close> tells whether the consumer has
  closed the result channel at that moment, and \<open>ASN_cache\<close> what the shared cache of
  continuous mode holds then (the helper tasks fill it at times of their own).
\<close>

record world =
  Getpid :: int
  IP_String :: "IP \<Rightarrow> string"
  IsIPv4 :: "IP \<Rightarrow> bool"
  IsIPv6 :: "IP \<Rightarrow> bool"
  ParseDuration :: "string \<Rightarrow> int option"
  ParseCIDR :: "string \<Rightarrow> IPNet option"
  IPNet_text :: "IPNet \<Rightarrow> string"
  icmpV4Message :: "int \<Rightarrow> int \<Rightarrow> int \<Rightarrow> byte list \<times> error option"
  icmpV6Message :: "int \<Rightarrow> int \<Rightarrow> int \<Rightarrow> byte list \<times> error option"
  icmpV4RespParser :: "byte list \<Rightarrow> ICMPResp option"
  icmpV6RespParser :: "byte list \<Rightarrow> ICMPResp option"
  ms_of :: "int \<Rightarrow> float64"
  cli_Flag :: "string \<Rightarrow> string \<times> (string \<rightharpoonup> flagval)"
  LookupIP :: "string \<Rightarrow> error + IP list"
  getLocalAddr :: "string \<Rightarrow> error + IP"
  growslice :: "nat \<Rightarrow> nat"
  time_ns :: "nat \<Rightarrow> int"
  time_unix :: "nat \<Rightarrow> int"
  rand_src :: "nat \<Rightarrow> nat"
  sys_Socket :: "nat \<Rightarrow> int \<times> error option"
  sys_Bind :: "nat \<Rightarrow> error option"
  ListenPacket :: "nat \<Rightarrow> error option"
  NewRawConn :: "nat \<Rightarrow> error option"
  WriteTo :: "nat \<Rightarrow> error option"
  Sendto :: "nat \<Rightarrow> error option"
  Recvfrom :: "nat \<Rightarrow> recv"
  lookupAddr :: "nat \<Rightarrow> IP \<Rightarrow> string list"
  ripe_Data :: "nat \<Rightarrow> string \<Rightarrow> (string \<times> json) list"
  chan_closed :: "nat \<Rightarrow> bool"
  ASN_cache :: "nat \<Rightarrow> string \<rightharpoonup> Whois"

section \<open>Sending a probe\<close>

text \<open>\<^verbatim>\<open>net.IP.To4\<close> and \<^verbatim>\<open>net.IP.To16\<close>; \<^term>\<open>None\<close> is the nil slice.\<close>

definition To4 :: "IP \<Rightarrow> IP option" where
  "To4 a =
     (if length a = 4 then Some a
      else if length a = 16 \<and> take 10 a = replicate 10 0 \<and> a ! 10 = 0xff \<and> a ! 11 = 0xff
      then Some (drop 12 a)
      else None)"

definition To16 :: "IP \<Rightarrow> IP option" where
  "To16 a =
     (if length a = 4 then Some (replicate 10 0 @ [0xff, 0xff] @ a)
      else if length a = 16 then Some a
      else None)"

text \<open>\<^verbatim>\<open>func (i *Trace) SetTTL(ttl int)\<close>\<close>

definition SetTTL :: "machine \<Rightarrow> int \<Rightarrow> machine" where
  "SetTTL s t = s\<lparr>ttl := t\<rparr>"

text \<open>One interaction with the environment has happened.\<close>

definition step :: "machine \<Rightarrow> machine" where
  "step s = s\<lparr>tick := tick s + 1\<rparr>"

text \<open>
  The \<^verbatim>\<open>switch\<close> of \<^verbatim>\<open>Sendv4\<close>: the protocol number and the bytes of the probe.
  With none of the three modes set, \<^verbatim>\<open>proto\<close> and \<^verbatim>\<open>b\<close> keep their zero values.
\<close>

definition Sendv4_probe ::
  "world \<Rightarrow> machine \<Rightarrow> int \<Rightarrow> int \<Rightarrow> (int \<times> byte list \<times> machine) exec" where
  "Sendv4_probe w s seq0 rport =
     (if icmp s
      then Returns (1, fst (icmpV4Message w (Getpid w AND 0xffff) seq0 (pSize s)), s)
      else if udp s
      then (let lport = 64000 + int (rand_src w (tick s) mod 3) * 100
            in case udpMessage lport rport (pSize s) True of
                 Panics \<Rightarrow> Panics
               | Returns b \<Rightarrow> Returns (17, b, step s))
      else if tcp s
      then (let b = tcpMessage 0 33434 64 True
                      (word_of_nat (rand_src w (tick s))) (time_unix w (tick s + 1))
            in case setTCPCheckSum (src s) (ip s) b of
                 None \<Rightarrow> Panics
               | Some b1 \<Rightarrow> Returns (6, b1, step (step s)))
      else Returns (0, [], s))"

text \<open>\<^verbatim>\<open>func (i *Trace) Sendv4(id, seq, rport int) error\<close>\<close>

definition Sendv4 ::
  "world \<Rightarrow> machine \<Rightarrow> int \<Rightarrow> int \<Rightarrow> int \<Rightarrow> (error option \<times> machine) exec" where
  "Sendv4 w s id0 seq0 rport =
     (case Sendv4_probe w s seq0 rport of
        Panics \<Rightarrow> Panics
      | Returns (proto0, b, s1) \<Rightarrow>
          (case ListenPacket w (tick s1) of
             Some e \<Rightarrow> Returns (Some e, step s1)
           | None \<Rightarrow>
               (case NewRawConn w (tick s1 + 1) of
                  Some e \<Rightarrow> Returns (Some e, step (step s1))
                | None \<Rightarrow>
                    (let h = \<lparr>Version = 4, Len = 20, TotalLen = 20 + int (length b),
                              Protocol = proto0, ID = id0, TTL = ttl s1, Dst = To4 (ip s1)\<rparr>
                     in case WriteTo w (tick s1 + 2) of
                          Some e \<Rightarrow> Returns (Some e, step (step (step s1)))
                        | None \<Rightarrow>
                            Returns (None,
                              (step (step (step s1)))\<lparr>wire := wire s1 @ [Packet4 h b]\<rparr>)))))"

text \<open>
  \<^verbatim>\<open>func (i *Trace) Send(port int) (int, int, error)\<close>. The socket type and protocol
  chosen for \<^verbatim>\<open>syscall.Socket\<close> are arguments of a system call whose result is the
  environment's, so they do not appear.
\<close>

definition Send :: "world \<Rightarrow> machine \<Rightarrow> int \<Rightarrow> ((int \<times> int \<times> error option) \<times> machine) exec" where
  "Send w s port =
     (let seq0 = seq s;
          id0 = 38840 + seq0;
          s1 = s\<lparr>seq := seq s + 1\<rparr>;
          s2 = step s1
      in case snd (sys_Socket w (tick s1)) of
           Some e \<Rightarrow> Returns ((id0, seq0, Some e), s2)
         | None \<Rightarrow>
             (if IsIPv4 w (ip s2)
              then (case Sendv4 w s2 id0 seq0 port of
                      Panics \<Rightarrow> Panics
                    | Returns (e, s3) \<Rightarrow> Returns ((id0, seq0, e), s3))
              else (case icmpV6Message w (Getpid w AND 0xffff) seq0 (pSize s2) of
                      (m, Some e) \<Rightarrow> Returns ((id0, seq0, Some e), s2)
                    | (m, None) \<Rightarrow>
                        (case Sendto w (tick s2) of
                           Some e \<Rightarrow> Returns ((id0, seq0, Some e), step s2)
                         | None \<Rightarrow>
                             Returns ((id0, seq0, None),
                               (step s2)\<lparr>wire := wire s2
                                  @ [Packet6 (ttl s2) port (case To16 (ip s2) of None \<Rightarrow> [] | Some a \<Rightarrow> a) m]\<rparr>)))))"

text \<open>
  \<^verbatim>\<open>func (i *Trace) Bind() error\<close>. The error of \<^verbatim>\<open>SetDeadLine\<close> is only printed.
\<close>

definition Bind :: "world \<Rightarrow> machine \<Rightarrow> error option \<times> machine" where
  "Bind w s =
     (let s1 = (step s)\<lparr>fd := fst (sys_Socket w (tick s))\<rparr>
      in case snd (sys_Socket w (tick s)) of
           Some e \<Rightarrow> (Some (SyscallError ''bind.socket'' e), s1)
         | None \<Rightarrow>
             (case sys_Bind w (tick s1) of
                Some e \<Rightarrow>
                  (Some (SyscallError (if family s1 = AF_INET then ''bindv4'' else ''bindv6'') e),
                   step s1)
              | None \<Rightarrow> (None, step s1)))"

section \<open>Receiving the reply\<close>

text \<open>
  Two expressions of the loop of \<^verbatim>\<open>Recv\<close> by name: the wait window
  (\<^verbatim>\<open>du, _ := time.ParseDuration(i.wait)\<close>, zero when the string does not parse) and
  the parse of a datagram by address family.
\<close>

definition wait_window :: "world \<Rightarrow> machine \<Rightarrow> int" where
  "wait_window w s = (case ParseDuration w (wait s) of None \<Rightarrow> 0 | Some d \<Rightarrow> d)"

definition parse_frame :: "world \<Rightarrow> machine \<Rightarrow> byte list \<Rightarrow> IP \<Rightarrow> ICMPResp option" where
  "parse_frame w s b from =
     (if To4 (ip s) \<noteq> None then icmpV4RespParser w b
      else map_option (\<lambda>r. r\<lparr>r_src := from\<rparr>) (icmpV6RespParser w b))"

text \<open>
  The loop of \<^verbatim>\<open>func (i *Trace) Recv(id, seq int) (ICMPResp, error)\<close>. \<open>ts\<close> is the
  time the call started, \<open>blen\<close> the current length of the buffer \<^verbatim>\<open>b\<close> (the code
  shortens it to the size of each datagram it reads) and \<open>resp\<close> the response parsed
  last. The loop may run forever: the function is partial, and \<^term>\<open>None\<close> is the call
  that never returns.
\<close>

partial_function (option) Recv_loop ::
  "world \<Rightarrow> int \<Rightarrow> int \<Rightarrow> int \<Rightarrow> nat \<Rightarrow> ICMPResp \<Rightarrow> machine
   \<Rightarrow> ((ICMPResp \<times> error option) \<times> machine) exec option" where
  "Recv_loop w id0 seq0 ts blen resp s =
     (let du = wait_window w s
      in case Recvfrom w (tick s) of
           RecvErr e \<Rightarrow>
             (if e = EAGAIN
              then (if time_ns w (tick s + 1) - ts < du
                    then Recv_loop w id0 seq0 ts blen resp (step (step s))
                    else Some (Returns ((resp, Some e), step (step s))))
              else Some (Returns ((resp, Some e), step s)))
         | RecvOK dgram from \<Rightarrow>
             (let b = take blen dgram;
                  v4 = (To4 (ip s) \<noteq> None)
              in case parse_frame w s b from of
                   None \<Rightarrow> Some Panics
                 | Some resp1 \<Rightarrow>
                     (let wID = ((r_typ resp1 = (if v4 then IPv4ICMPTypeEchoReply
                                                else IPv6ICMPTypeEchoReply))
                                 \<and> id0 \<noteq> r_id resp1);
                          wSeq = (seq0 \<noteq> r_seq resp1);
                          wDst = (IP_String w (ip_dst (r_ip resp1)) \<noteq> IP_String w (ip s));
                          wV4 = (v4 \<and> id0 \<noteq> ip_id (r_ip resp1) \<and> ip_id (r_ip resp1) \<noteq> 0)
                      in if (icmp s \<and> wSeq) \<or> (\<not> icmp s \<and> (wDst \<or> wID \<or> wV4))
                         then (if time_ns w (tick s + 1) - ts < du
                               then Recv_loop w id0 seq0 ts (length b) resp1 (step (step s))
                               else Some (Returns ((resp1, Some (ErrMsg ''wrong response'')),
                                                   step (step s))))
                         else Some (Returns ((resp1, None), step s)))))"

text \<open>\<^verbatim>\<open>Recv\<close>: a buffer of 512 bytes, the time of the call, the zero response.\<close>

definition Recv ::
  "world \<Rightarrow> machine \<Rightarrow> int \<Rightarrow> int \<Rightarrow> ((ICMPResp \<times> error option) \<times> machine) exec option" where
  "Recv w s id0 seq0 = Recv_loop w id0 seq0 (time_ns w (tick s)) 512 ICMPResp0 (step s)"

section \<open>One hop\<close>

text \<open>
  \<^verbatim>\<open>func (i *Trace) NextHop(hop int) HopResp\<close>. The DNS cache is made anew by every
  call, so its lookup always misses.
\<close>

definition NextHop :: "world \<Rightarrow> machine \<Rightarrow> int \<Rightarrow> (HopResp \<times> machine) exec option" where
  "NextHop w s hop0 =
     (let port = 33434;
          s1 = SetTTL s hop0;
          begin_ns = time_ns w (tick s1);
          s2 = step s1
      in case Send w s2 port of
           Panics \<Rightarrow> Some Panics
         | Returns ((id0, seq0, Some e), s3) \<Rightarrow>
             Some (Returns (\<lparr>h_num = hop0, h_hop = [], h_ip = [], h_elapsed = f64_zero,
                              h_last = False, h_err = Some e, h_whois = Whois0\<rparr>, s3))
         | Returns ((id0, seq0, None), s3) \<Rightarrow>
             (case Recv w s3 id0 seq0 of
                None \<Rightarrow> None
              | Some Panics \<Rightarrow> Some Panics
              | Some (Returns ((resp, Some e), s4)) \<Rightarrow>
                  Some (Returns (\<lparr>h_num = hop0, h_hop = [], h_ip = [], h_elapsed = f64_zero,
                                   h_last = False, h_err = None, h_whois = Whois0\<rparr>, s4))
              | Some (Returns ((resp, None), s4)) \<Rightarrow>
                  (let elapsed = time_ns w (tick s4) - begin_ns;
                       s5 = step s4;
                       (name, s6) = (if resolve s5
                                     then (lookupAddr w (tick s5) (r_src resp), step s5)
                                     else ([], s5));
                       r = (if 0 < length name
                            then \<lparr>h_num = hop0, h_hop = name ! 0,
                                  h_ip = IP_String w (r_src resp), h_elapsed = ms_of w elapsed,
                                  h_last = False, h_err = None, h_whois = Whois0\<rparr>
                            else \<lparr>h_num = hop0, h_hop = [],
                                  h_ip = IP_String w (r_src resp), h_elapsed = ms_of w elapsed,
                                  h_last = False, h_err = None, h_whois = Whois0\<rparr>);
                       r1 = (if \<exists>h \<in> set (ips s6). IP_String w (r_src resp) = IP_String w h
                             then r\<lparr>h_last := True\<rparr> else r)
                   in Some (Returns (r1, s6)))))"

section \<open>Enrichment\<close>

text \<open>\<^verbatim>\<open>func (n *IPNet) String() string\<close>, which answers for the nil pointer too.\<close>

definition IPNet_String :: "world \<Rightarrow> IPNet option \<Rightarrow> string" where
  "IPNet_String w n = (case n of None \<Rightarrow> ''<nil>'' | Some m \<Rightarrow> IPNet_text w m)"

text \<open>
  The resource that \<^verbatim>\<open>whois\<close> hands to \<^verbatim>\<open>r.Set\<close>: the first lines of the function.
  \<^verbatim>\<open>net.ParseCIDR\<close> returns a nil network exactly when it returns an error.
\<close>

definition whois_resource :: "world \<Rightarrow> string \<Rightarrow> string" where
  "whois_resource w ip0 =
     (case ParseCIDR w (ip0 @ ''/24'') of
        None \<Rightarrow> IPNet_String w None
      | Some n \<Rightarrow> ip0)"

text \<open>
  The loop of \<^verbatim>\<open>whois\<close> over \<^verbatim>\<open>asns\<close>; \<^term>\<open>None\<close> is the panic of a failed type
  assertion.
\<close>

fun whois_asns :: "json list \<Rightarrow> Whois \<Rightarrow> Whois option" where
  "whois_asns [] resp = Some resp"
| "whois_asns (h # rest) resp =
     (case h of
        JObj m \<Rightarrow>
          (case map_of m ''holder'' of
             Some (JStr hs) \<Rightarrow>
               (case map_of m ''asn'' of
                  Some (JNum a) \<Rightarrow> whois_asns rest (resp\<lparr>holder := hs, asn := a\<rparr>)
                | _ \<Rightarrow> None)
           | _ \<Rightarrow> None)
      | _ \<Rightarrow> None)"

text \<open>
  \<^verbatim>\<open>func whois(ip string) (Whois, error)\<close>, started at interaction \<open>k\<close>; the query
  to the prefix service is one interaction.
\<close>

definition whois :: "world \<Rightarrow> nat \<Rightarrow> string \<Rightarrow> (Whois \<times> error option) exec" where
  "whois w k ip0 =
     (case map_of (ripe_Data w k (whois_resource w ip0)) ''data'' of
        Some (JObj d) \<Rightarrow>
          (case map_of d ''asns'' of
             Some (JArr asns) \<Rightarrow>
               (case whois_asns asns Whois0 of
                  None \<Rightarrow> Panics
                | Some resp \<Rightarrow> Returns (resp, None))
           | _ \<Rightarrow> Panics)
      | _ \<Rightarrow> Returns (Whois0, Some (ErrMsg ''data not available'')))"

text \<open>
  The second loop of \<^verbatim>\<open>addWhois\<close>, over the keys of the map \<^verbatim>\<open>ips\<close>. Go leaves the
  order of the keys open; here it is the order of their first occurrence.
\<close>

fun addWhois_keys ::
  "world \<Rightarrow> string list \<Rightarrow> (string \<rightharpoonup> Whois) \<Rightarrow> nat \<Rightarrow> ((string \<rightharpoonup> Whois) \<times> nat) exec" where
  "addWhois_keys w [] m k = Returns (m, k)"
| "addWhois_keys w (ip0 # rest) m k =
     (if ip0 = [] then addWhois_keys w rest m k
      else (case whois w k ip0 of
              Panics \<Rightarrow> Panics
            | Returns (wh, Some e) \<Rightarrow> addWhois_keys w rest m (k + 1)
            | Returns (wh, None) \<Rightarrow> addWhois_keys w rest (m(ip0 \<mapsto> wh)) (k + 1)))"

text \<open>
  \<^verbatim>\<open>func (i *Trace) addWhois(R []HopResp)\<close>, on the elements of \<^verbatim>\<open>R\<close>: the model
  returns the elements with their new \<^verbatim>\<open>whois\<close> fields.
\<close>

definition addWhois :: "world \<Rightarrow> machine \<Rightarrow> HopResp list \<Rightarrow> (HopResp list \<times> machine) exec" where
  "addWhois w s R =
     (let m0 = map_of (map (\<lambda>r. (h_ip r, Whois0)) R)
      in case addWhois_keys w (remdups (map h_ip R)) m0 (tick s) of
           Panics \<Rightarrow> Panics
         | Returns (m, k) \<Rightarrow>
             Returns (map (\<lambda>r. r\<lparr>h_whois := (case m (h_ip r) of None \<Rightarrow> Whois0 | Some wh \<Rightarrow> wh)\<rparr>) R,
                      s\<lparr>tick := k\<rparr>))"

section \<open>The two scans\<close>

text \<open>
  How the producer task of a scan ends: it closes the channel; or it panics and
  \<^verbatim>\<open>recover\<close> catches it (the channel stays open); or a call of \<^verbatim>\<open>NextHop\<close> never
  returns; or the steps granted to the model of the endless loop are used up; or
  \<^verbatim>\<open>Bind\<close> fails and the task is never started.
\<close>

datatype run_end = Closed | Recovered | Stuck | OutOfSteps | NotStarted

text \<open>
  \<^verbatim>\<open>Run\<close> keeps its batch in one slice \<^verbatim>\<open>r\<close>, sends the slice on the channel and
  then goes on with \<^verbatim>\<open>r = r[:0]\<close>: the slice sent and the slice of the next hop point
  into the same array. So the slices are modelled as Go has them. The memory is the
  list of the arrays of hop results allocated so far, each as long as its capacity; a
  slice is the index of its array in the memory, its length and its capacity. The nil
  slice has length and capacity 0; it is given the empty array at index 0 to point to.
\<close>

type_synonym memory = "HopResp list list"

record slice =
  arr :: nat
  len :: nat
  cap :: nat

definition memory0 :: memory where
  "memory0 = [[]]"

definition nil_slice :: slice where
  "nil_slice = \<lparr>arr = 0, len = 0, cap = 0\<rparr>"

text \<open>The zero value of \<^verbatim>\<open>HopResp\<close>, which fills a new array.\<close>

definition HopResp0 :: HopResp where
  "HopResp0 = \<lparr>h_num = 0, h_hop = [], h_ip = [], h_elapsed = f64_zero, h_last = False,
               h_err = None, h_whois = Whois0\<rparr>"

text \<open>What a reader of the slice \<open>r\<close> finds in the memory \<open>m\<close>.\<close>

definition contents :: "memory \<Rightarrow> slice \<Rightarrow> HopResp list" where
  "contents m r = take (len r) (m ! arr r)"

text \<open>
  \<^verbatim>\<open>r = append(r, x)\<close>: within the capacity, \<open>x\<close> is written into the array of \<open>r\<close>;
  beyond it, a new array of the capacity that the runtime chooses (at least the new
  length) gets the elements of \<open>r\<close>, then \<open>x\<close>, then zero values, and \<open>r\<close> points to it.
\<close>

definition append1 :: "world \<Rightarrow> memory \<Rightarrow> slice \<Rightarrow> HopResp \<Rightarrow> memory \<times> slice" where
  "append1 w m r x =
     (if len r < cap r
      then (m[arr r := (m ! arr r)[len r := x]], r\<lparr>len := len r + 1\<rparr>)
      else (let c = max (len r + 1) (growslice w (cap r));
                a = contents m r @ [x] @ replicate (c - (len r + 1)) HopResp0
            in (m @ [a], \<lparr>arr = length m, len = len r + 1, cap = c\<rparr>)))"

text \<open>
  The inner loop of \<^verbatim>\<open>Run\<close>: \<^verbatim>\<open>for n := 0; n < retry; n++\<close>, with \<open>r\<close> the batch so
  far and \<open>m\<close> the memory.
\<close>

function Run_retry ::
  "world \<Rightarrow> int \<Rightarrow> int \<Rightarrow> int \<Rightarrow> memory \<Rightarrow> slice \<Rightarrow> machine
   \<Rightarrow> ((memory \<times> slice) \<times> machine) exec option" where
  "Run_retry w h retry n m r s =
     (if n < retry
      then (case NextHop w s h of
              None \<Rightarrow> None
            | Some Panics \<Rightarrow> Some Panics
            | Some (Returns (hop0, s1)) \<Rightarrow>
                (if h_err hop0 \<noteq> None then Some (Returns (append1 w m r hop0, s1))
                 else (let (m1, r1) = append1 w m r hop0
                       in Run_retry w h retry (n + 1) m1 r1 s1)))
      else Some (Returns ((m, r), s)))"
  by pat_completeness auto
termination
  by (relation "measure (\<lambda>(w, h, retry, n, m, r, s). nat (retry - n))") auto

declare Run_retry.simps [simp del]

text \<open>
  \<^verbatim>\<open>i.addWhois(r[:])\<close>: the results of \<^verbatim>\<open>addWhois\<close> are written over the elements
  of \<open>r\<close> in its array.
\<close>

definition addWhois_slice ::
  "world \<Rightarrow> machine \<Rightarrow> memory \<Rightarrow> slice \<Rightarrow> (memory \<times> machine) exec" where
  "addWhois_slice w s m r =
     (case addWhois w s (contents m r) of
        Panics \<Rightarrow> Panics
      | Returns (R, s1) \<Rightarrow> Returns (m[arr r := R @ drop (len r) (m ! arr r)], s1))"

text \<open>
  What no step changes: the tracer without \<^verbatim>\<open>seq\<close>, \<^verbatim>\<open>ttl\<close> and \<^verbatim>\<open>fd\<close>, the
  counter and the packets written. The outer loop of \<^verbatim>\<open>Run\<close> ends because
  \<^verbatim>\<open>maxTTL\<close> is part of it.
\<close>

definition config :: "machine \<Rightarrow> machine" where
  "config s = s\<lparr>seq := 0, ttl := 0, fd := 0, tick := 0, wire := []\<rparr>"

lemma config_step [simp]: "config (step s) = config s"
  by (simp add: config_def step_def)

lemma config_upd [simp]:
  "config (s\<lparr>seq := a\<rparr>) = config s"
  "config (s\<lparr>ttl := b\<rparr>) = config s"
  "config (s\<lparr>fd := c\<rparr>) = config s"
  "config (s\<lparr>tick := d\<rparr>) = config s"
  "config (s\<lparr>wire := e\<rparr>) = config s"
  by (simp_all add: config_def)

lemma config_maxTTL: "config s' = config s \<Longrightarrow> maxTTL s' = maxTTL s"
  by (drule arg_cong [where f = maxTTL]) (simp add: config_def)

lemma maxTTL_step [simp]: "maxTTL (step s) = maxTTL s"
  by (simp add: step_def)

lemma SetTTL_config [simp]: "config (SetTTL s t) = config s"
  by (simp add: SetTTL_def)

lemma Sendv4_probe_config:
  "Sendv4_probe w s q rp = Returns (p, b, s1) \<Longrightarrow> config s1 = config s"
  by (auto simp: Sendv4_probe_def Let_def split: if_splits option.splits exec.splits)

lemma Sendv4_config:
  "Sendv4 w s i q rp = Returns (e, s1) \<Longrightarrow> config s1 = config s"
  apply (simp add: Sendv4_def Let_def split: exec.splits option.splits prod.splits)
  apply (auto dest: Sendv4_probe_config)
  done

lemma Send_config:
  "Send w s port = Returns (x, s1) \<Longrightarrow> config s1 = config s"
  by (auto simp: Send_def Let_def split: exec.splits option.splits if_splits prod.splits
           dest!: Sendv4_config)

lemma Recv_loop_config:
  assumes "Recv_loop w i q ts bl resp s = Some out"
  shows "\<forall>x s1. out = Returns (x, s1) \<longrightarrow> config s1 = config s"
proof (rule Recv_loop.raw_induct [where P = "\<lambda>w i q ts bl resp s out.
          \<forall>x s1. out = Returns (x, s1) \<longrightarrow> config s1 = config s", OF _ assms], goal_cases)
  case (1 f w id0 seq0 ts blen resp s out)
  have IH: "\<And>w id0 seq0 ts blen resp s x s1.
              f w id0 seq0 ts blen resp s = Some (Returns (x, s1)) \<Longrightarrow> config s1 = config s"
    using 1(1) by blast
  from 1(2) show ?case
    by (auto simp: Let_def split: recv.splits if_splits option.splits dest!: IH)
qed

lemma Recv_config:
  "Recv w s i q = Some (Returns (x, s1)) \<Longrightarrow> config s1 = config s"
  using Recv_loop_config [of w i q "time_ns w (tick s)" 512 ICMPResp0 "step s"]
  by (auto simp: Recv_def)

lemma NextHop_config:
  "NextHop w s h = Some (Returns (r, s1)) \<Longrightarrow> config s1 = config s"
  by (auto simp: NextHop_def Let_def split: exec.splits option.splits if_splits prod.splits
           dest!: Send_config Recv_config)

lemma Run_retry_config:
  "Run_retry w h retry n m r s = Some (Returns (x, s1)) \<Longrightarrow> config s1 = config s"
proof (induction w h retry n m r s rule: Run_retry.induct)
  case (1 w h retry n m r s)
  show ?case
  proof (cases "n < retry")
    case False
    with "1.prems" show ?thesis by (simp add: Run_retry.simps)
  next
    case True
    with "1.prems" obtain hop0 s0 where nh: "NextHop w s h = Some (Returns (hop0, s0))"
      by (auto simp: Run_retry.simps split: option.splits exec.splits)
    have c0: "config s0 = config s" using nh by (rule NextHop_config)
    obtain m1 r1 where ap: "append1 w m r hop0 = (m1, r1)" by (cases "append1 w m r hop0")
    show ?thesis
    proof (cases "h_err hop0 = None")
      case False
      with "1.prems" True nh c0 show ?thesis by (auto simp: Run_retry.simps)
    next
      case e: True
      with "1.prems" True nh ap
      have "Run_retry w h retry (n + 1) m1 r1 s0 = Some (Returns (x, s1))"
        by (simp add: Run_retry.simps [of w h retry n])
      from "1.IH" [OF True nh refl refl _ ap [symmetric] refl this] e c0 show ?thesis by simp
    qed
  qed
qed

lemma addWhois_config:
  "addWhois w s R = Returns (R1, s1) \<Longrightarrow> config s1 = config s"
  by (auto simp: addWhois_def Let_def split: exec.splits)

lemma addWhois_slice_config:
  "addWhois_slice w s m r = Returns (m1, s1) \<Longrightarrow> config s1 = config s"
  by (auto simp: addWhois_slice_def split: exec.splits dest: addWhois_config)

text \<open>
  What goes over the channel at \<^verbatim>\<open>c <- r\<close> is the slice, not a copy of its elements.
  A sending is the slice sent together with the memory at that moment.
\<close>

record sending =
  batch :: slice
  heap :: memory

text \<open>
  The outer loop of \<^verbatim>\<open>Run\<close>, \<^verbatim>\<open>for h := 1; h <= i.maxTTL; h++\<close>: the sendings in
  order, and how the task ends. A send on a channel that the consumer has closed
  panics. After the exit test the loop goes on with \<^verbatim>\<open>r[:0]\<close>, the same array at
  length 0.
\<close>

function Run_loop ::
  "world \<Rightarrow> int \<Rightarrow> int \<Rightarrow> memory \<Rightarrow> slice \<Rightarrow> machine \<Rightarrow> sending list \<times> run_end" where
  "Run_loop w retry h m r s =
     (if h \<le> maxTTL s
      then (case Run_retry w h retry 0 m r s of
              None \<Rightarrow> ([], Stuck)
            | Some Panics \<Rightarrow> ([], Recovered)
            | Some (Returns ((m1, r1), s1)) \<Rightarrow>
                (case (if ripe s1 then addWhois_slice w s1 m1 r1 else Returns (m1, s1)) of
                   Panics \<Rightarrow> ([], Recovered)
                 | Returns (m2, s2) \<Rightarrow>
                     (if chan_closed w (tick s2) then ([], Recovered)
                      else if \<exists>R \<in> set (contents m2 r1). h_last R \<or> h_err R \<noteq> None
                      then ([\<lparr>batch = r1, heap = m2\<rparr>], Closed)
                      else (let (xs, e) = Run_loop w retry (h + 1) m2 (r1\<lparr>len := 0\<rparr>) (step s2)
                            in (\<lparr>batch = r1, heap = m2\<rparr> # xs, e)))))
      else ([], Closed))"
  by pat_completeness auto
termination
proof (relation "measure (\<lambda>(w, retry, h, m, r, s). nat (maxTTL s - h + 1))", goal_cases)
  case 1
  show ?case by simp
next
  case (2 w retry h m r s x2 x2a p s1 m1 r1 x2b m2 s2)
  have a: "config s1 = config s"
    using 2(2,3,4,5) by (auto dest: Run_retry_config)
  have b: "config s2 = config s1"
    using 2(6,7) by (auto split: if_splits dest: addWhois_slice_config)
  have "maxTTL s2 = maxTTL s"
    using a b by (auto dest!: config_maxTTL)
  with 2(1) show ?case by simp
qed

declare Run_loop.simps [simp del]

text \<open>
  \<^verbatim>\<open>func (i *Trace) Run(retry int) (chan []HopResp, error)\<close>: the error of \<^verbatim>\<open>Bind\<close>,
  or what the producer task sends and how it ends. \<^verbatim>\<open>r\<close> starts as the nil slice.
\<close>

definition Run :: "world \<Rightarrow> machine \<Rightarrow> int \<Rightarrow> error option \<times> sending list \<times> run_end" where
  "Run w s retry =
     (case Bind w s of
        (Some e, s1) \<Rightarrow> (Some e, [], NotStarted)
      | (None, s1) \<Rightarrow> (let (xs, e) = Run_loop w retry 1 memory0 nil_slice s1 in (None, xs, e)))"

text \<open>
  What the consumer finds in the batches. \<open>as_sent\<close> is every batch read at the moment
  it is sent. \<open>reads xs at\<close> is batch \<open>k\<close> read in the memory of sending \<open>at k\<close>. Of
  \<open>n\<close> sendings, \<open>when_next_sent n\<close> reads each batch when the next one has been sent:
  the channel holds one batch, so this is a consumer that takes each batch from the
  channel when the producer is waiting to send the one after it. \<open>when_closed n\<close> reads
  every batch in the memory of the last sending: nothing is written between the last
  send and \<^verbatim>\<open>close(c)\<close>, so this is a consumer that collects the batches and reads them
  after the channel is closed.
\<close>

definition as_sent :: "sending list \<Rightarrow> HopResp list list" where
  "as_sent xs = map (\<lambda>x. contents (heap x) (batch x)) xs"

definition reads :: "sending list \<Rightarrow> (nat \<Rightarrow> nat) \<Rightarrow> HopResp list list" where
  "reads xs at = map (\<lambda>k. contents (heap (xs ! at k)) (batch (xs ! k))) [0 ..< length xs]"

definition when_next_sent :: "nat \<Rightarrow> nat \<Rightarrow> nat" where
  "when_next_sent n k = min (n - 1) (k + 1)"

definition when_closed :: "nat \<Rightarrow> nat \<Rightarrow> nat" where
  "when_closed n k = n - 1"


text \<open>
  The loops of \<^verbatim>\<open>MRun\<close>. The outer loop has no bound, so the model is granted a
  number of steps: each step is one turn of the inner loop
  \<^verbatim>\<open>for h := 1; h <= maxTTL; h++\<close> or, when that loop is over, the end of a cycle
  (\<^verbatim>\<open>count++\<close> and the test of \<^verbatim>\<open>i.count\<close>). \<open>maxTTL0\<close> and \<open>count0\<close> are the local
  variables \<^verbatim>\<open>maxTTL\<close> and \<^verbatim>\<open>count\<close>. The result is what has been sent on the channel
  within these steps. The sleeps have no counterpart.
\<close>

fun MRun_loop ::
  "nat \<Rightarrow> world \<Rightarrow> int \<Rightarrow> int \<Rightarrow> int \<Rightarrow> machine \<Rightarrow> HopResp list \<times> run_end" where
  "MRun_loop 0 w h maxTTL0 count0 s = ([], OutOfSteps)"
| "MRun_loop (Suc n) w h maxTTL0 count0 s =
     (if h \<le> maxTTL0
      then (case NextHop w s h of
              None \<Rightarrow> ([], Stuck)
            | Some Panics \<Rightarrow> ([], Recovered)
            | Some (Returns (hop0, s1)) \<Rightarrow>
                (let hop1 = (case ASN_cache w (tick s1) (h_ip hop0) of
                               Some wh \<Rightarrow> hop0\<lparr>h_whois := wh\<rparr>
                             | None \<Rightarrow> hop0);
                     s2 = step s1
                 in if chan_closed w (tick s2) then ([], Recovered)
                    else (let maxTTL1 = (if h_last hop1 \<and> maxTTL0 = maxTTL s2 then h
                                         else maxTTL0);
                              (rs, e) = MRun_loop n w (h + 1) maxTTL1 count0 (step s2)
                          in (hop1 # rs, e))))
      else (let count1 = count0 + 1
            in if 0 < count s \<and> count s \<le> count1 then ([], Closed)
               else MRun_loop n w 1 maxTTL0 count1 s))"

text \<open>\<^verbatim>\<open>func (i *Trace) MRun() (chan HopResp, error)\<close>, observed for \<open>n\<close> steps.\<close>

definition MRun :: "nat \<Rightarrow> world \<Rightarrow> machine \<Rightarrow> error option \<times> HopResp list \<times> run_end" where
  "MRun n w s =
     (case Bind w s of
        (Some e, s1) \<Rightarrow> (Some e, [], NotStarted)
      | (None, s1) \<Rightarrow>
          (let (rs, e) = MRun_loop n w 1 (maxTTL s) 0 s1 in (None, rs, e)))"

section \<open>Making the tracer\<close>

text \<open>
  Modelled from the spec: \<^verbatim>\<open>cli.SetFlag\<close> is not among the source files. The
  configuration provider has enumerated options with defaults: the value of the option
  when the command line sets it, the default otherwise.
\<close>

definition SetFlag :: "(string \<rightharpoonup> flagval) \<Rightarrow> string \<Rightarrow> flagval \<Rightarrow> flagval" where
  "SetFlag flag option0 v = (case flag option0 of None \<Rightarrow> v | Some x \<Rightarrow> x)"

text \<open>The type assertions \<^verbatim>\<open>.(bool)\<close>, \<^verbatim>\<open>.(int)\<close>, \<^verbatim>\<open>.(string)\<close>; \<^term>\<open>None\<close> is the panic.\<close>

fun as_bool :: "flagval \<Rightarrow> bool option" where
  "as_bool (FBool b) = Some b"
| "as_bool _ = None"

fun as_int :: "flagval \<Rightarrow> int option" where
  "as_int (FInt i) = Some i"
| "as_int _ = None"

fun as_string :: "flagval \<Rightarrow> string option" where
  "as_string (FStr x) = Some x"
| "as_string _ = None"

text \<open>\<^verbatim>\<open>func (i *Trace) setReportDCount(c int)\<close>\<close>

definition setReportDCount :: "Trace \<Rightarrow> int \<Rightarrow> Trace" where
  "setReportDCount t c = (if report t \<and> count t < 0 then t\<lparr>count := c\<rparr> else t)"

text \<open>The loop of \<^verbatim>\<open>NewTrace\<close> over the resolved addresses; \<^term>\<open>None\<close> is \<^verbatim>\<open>ip == nil\<close>.\<close>

fun pick_ip :: "world \<Rightarrow> bool \<Rightarrow> bool \<Rightarrow> IP list \<Rightarrow> IP option" where
  "pick_ip w forceIPv4 forceIPv6 [] = None"
| "pick_ip w forceIPv4 forceIPv6 (a # rest) =
     (if IsIPv4 w a \<and> \<not> forceIPv6 then Some a
      else if IsIPv6 w a \<and> \<not> forceIPv4 then Some a
      else pick_ip w forceIPv4 forceIPv6 rest)"

text \<open>
  The struct literal of \<^verbatim>\<open>NewTrace\<close> and the call of \<^verbatim>\<open>setReportDCount\<close>;
  \<^term>\<open>None\<close> when a type assertion panics.
\<close>

definition NewTrace_fill ::
  "(string \<rightharpoonup> flagval) \<Rightarrow> Config \<Rightarrow> string \<Rightarrow> IP list \<Rightarrow> IP \<Rightarrow> IP \<Rightarrow> int \<Rightarrow> int
   \<Rightarrow> Trace option" where
  "NewTrace_fill flag cfg target ips0 ip0 lAddr family0 proto0 =
     do {
       UDP \<leftarrow> as_bool (SetFlag flag ''u'' (FBool False));
       TCP \<leftarrow> as_bool (SetFlag flag ''t'' (FBool False));
       pSize0 \<leftarrow> as_int (SetFlag flag ''p'' (FInt 52));
       uiTheme0 \<leftarrow> as_string (SetFlag flag ''T'' (FStr (cfg_Theme cfg)));
       wait0 \<leftarrow> as_string (SetFlag flag ''w'' (FStr (cfg_Wait cfg)));
       resolve0 \<leftarrow> as_bool (SetFlag flag ''n'' (FBool True));
       ripe0 \<leftarrow> as_bool (SetFlag flag ''nr'' (FBool True));
       realTime0 \<leftarrow> as_bool (SetFlag flag ''r'' (FBool False));
       maxTTL0 \<leftarrow> as_int (SetFlag flag ''m'' (FInt 30));
       count0 \<leftarrow> as_int (SetFlag flag ''c'' (FInt (- 1)));
       report0 \<leftarrow> as_bool (SetFlag flag ''R'' (FBool False));
       km0 \<leftarrow> as_bool (SetFlag flag ''km'' (FBool False));
       Some (setReportDCount
         \<lparr>host = target, ips = ips0, ip = ip0, src = lAddr, seq = 1,
          family = family0, proto = proto0,
          icmp = (\<not> UDP \<and> \<not> TCP), udp = (UDP \<and> \<not> TCP), tcp = (TCP \<and> \<not> UDP),
          pSize = pSize0, uiTheme = uiTheme0, wait = wait0, resolve = resolve0,
          ripe = ripe0, realTime = realTime0, maxTTL = maxTTL0, count = count0,
          report = report0, km = km0, ttl = 0, fd = 0\<rparr> 10)
     }"

text \<open>
  \<^verbatim>\<open>func NewTrace(args string, cfg cli.Config) (*Trace, error)\<close>: the tracer (or nil)
  and the error (or nil).
\<close>

definition NewTrace :: "world \<Rightarrow> string \<Rightarrow> Config \<Rightarrow> (Trace option \<times> error option) exec" where
  "NewTrace w args cfg =
     (let (target, flag) = cli_Flag w args
      in case (as_bool (SetFlag flag ''4'' (FBool False)),
               as_bool (SetFlag flag ''6'' (FBool False))) of
           (Some forceIPv4, Some forceIPv6) \<Rightarrow>
             (if flag ''help'' \<noteq> None \<or> length target < 3 then Returns (None, None)
              else (case LookupIP w target of
                      Inl e \<Rightarrow> Returns (None, Some e)
                    | Inr ips0 \<Rightarrow>
                        (case pick_ip w forceIPv4 forceIPv6 ips0 of
                           None \<Rightarrow> Returns (None, Some (ErrMsg ''there is not A or AAAA record''))
                         | Some ip0 \<Rightarrow>
                             (case getLocalAddr w (IP_String w ip0) of
                                Inl e \<Rightarrow> Returns (None, Some e)
                              | Inr lAddr \<Rightarrow>
                                  (case NewTrace_fill flag cfg target ips0 ip0 lAddr
                                          (if IsIPv4 w ip0 then AF_INET else AF_INET6)
                                          (if IsIPv4 w ip0 then IPPROTO_ICMP else IPPROTO_ICMPV6) of
                                     None \<Rightarrow> Panics
                                   | Some t \<Rightarrow> Returns (Some t, None))))))
         | _ \<Rightarrow> Panics)"

text \<open>A tracer that has not yet talked to its environment.\<close>

definition start :: "Trace \<Rightarrow> machine" where
  "start t = Trace.extend t \<lparr>tick = 0, wire = []\<rparr>"

section \<open>An environment to run the model in\<close>

declare Recv_loop.simps [code]

text \<open>
  The examples below run the model in a quiet environment: every system call succeeds,
  every read of the receive socket times out (\<^verbatim>\<open>EAGAIN\<close>), the clock advances by one
  second per interaction, and the prefix service knows nothing. The functions that
  are not in \<^verbatim>\<open>trace.go\<close> get simple stand-ins: addresses are printed in dotted
  decimal, and a received frame is read as twelve bytes (type, identifier, sequence
  number, IP identifier, source address, destination address of the embedded header),
  and a duration is turned into whole milliseconds.
  Each example changes what it needs.
\<close>

fun dotted :: "IP \<Rightarrow> string" where
  "dotted [] = []"
| "dotted [b] = digits (unat b)"
| "dotted (b # bs) = digits (unat b) @ ''.'' @ dotted bs"

definition toy_parser :: "byte list \<Rightarrow> ICMPResp option" where
  "toy_parser b =
     (if length b < 12 then None
      else Some \<lparr>r_typ = uint (b ! 0), r_id = uint (b ! 1), r_seq = uint (b ! 2),
                 r_src = take 4 (drop 4 b),
                 r_ip = \<lparr>ip_dst = take 4 (drop 8 b), ip_id = uint (b ! 3)\<rparr>\<rparr>)"

definition quiet :: world where
  "quiet =
     \<lparr>Getpid = 4242,
      IP_String = dotted,
      IsIPv4 = (\<lambda>a. To4 a \<noteq> None),
      IsIPv6 = (\<lambda>a. To4 a = None \<and> length a = 16),
      ParseDuration = (\<lambda>x. if x = ''2s'' then Some 2000000000 else None),
      ParseCIDR = (\<lambda>x. if x = ''8.8.8.8/24''
                        then Some \<lparr>net_IP = [8, 8, 8, 0], net_Mask = [255, 255, 255, 0]\<rparr>
                        else None),
      IPNet_text = (\<lambda>n. dotted (net_IP n) @ ''/24''),
      icmpV4Message = (\<lambda>i q p. (replicate (nat (p - 20)) 0, None)),
      icmpV6Message = (\<lambda>i q p. (replicate (nat (p - 40)) 0, None)),
      icmpV4RespParser = toy_parser,
      icmpV6RespParser = toy_parser,
      ms_of = (\<lambda>d. F64 False (nat (d div 1000000)) 0),
      cli_Flag = (\<lambda>a. (a, Map.empty)),
      LookupIP = (\<lambda>h. Inr [[192, 0, 2, 1]]),
      getLocalAddr = (\<lambda>a. Inr [10, 0, 0, 1]),
      growslice = (\<lambda>c. if c = 0 then 1 else 2 * c),
      time_ns = (\<lambda>k. int k * 1000000000),
      time_unix = (\<lambda>k. 1700000000),
      rand_src = (\<lambda>k. k),
      sys_Socket = (\<lambda>k. (3, None)),
      sys_Bind = (\<lambda>k. None),
      ListenPacket = (\<lambda>k. None),
      NewRawConn = (\<lambda>k. None),
      WriteTo = (\<lambda>k. None),
      Sendto = (\<lambda>k. None),
      Recvfrom = (\<lambda>k. RecvErr EAGAIN),
      lookupAddr = (\<lambda>k a. []),
      ripe_Data = (\<lambda>k q. []),
      chan_closed = (\<lambda>k. False),
      ASN_cache = (\<lambda>k. Map.empty)\<rparr>"

definition tracer0 :: Trace where
  "tracer0 =
     \<lparr>host = ''192.0.2.1'', ips = [[192, 0, 2, 1]], ip = [192, 0, 2, 1], src = [10, 0, 0, 1],
      seq = 1, family = AF_INET, proto = IPPROTO_ICMP, icmp = True, udp = False, tcp = False,
      pSize = 52, uiTheme = ''dark'', wait = ''2s'', resolve = True, ripe = True,
      realTime = False, maxTTL = 2, count = - 1, report = False, km = False, ttl = 0, fd = 0\<rparr>"


text \<open>The tracer of the examples in UDP mode, before its first interaction.\<close>

definition udp_machine :: machine where
  "udp_machine = start (tracer0\<lparr>icmp := False, udp := True\<rparr>)"


text \<open>The hop result of the specification's marshalling example; 12.345 as a \<^verbatim>\<open>float64\<close>
  is \<open>6949617174986097 \<sqdot> 2\<^sup>-\<^sup>4\<^sup>9\<close>.\<close>

definition example_hop :: HopResp where
  "example_hop =
     \<lparr>h_num = 5, h_hop = ''r.x'', h_ip = ''1.2.3.4'',
      h_elapsed = F64 False 0x18B0A3D70A3D71 (- 49),
      h_last = False, h_err = None,
      h_whois = \<lparr>holder = ''EXAMPLE AS'', asn = F64 False 64500 0\<rparr>\<rparr>"

text \<open>
  A command line that asks for UDP probes of 20 bytes, the tracer that \<^verbatim>\<open>NewTrace\<close>
  makes of it, and the configuration file of the examples.
\<close>

definition small_world :: world where
  "small_world = quiet\<lparr>cli_Flag := (\<lambda>a. (a, [''p'' \<mapsto> FInt 20, ''u'' \<mapsto> FBool True]))\<rparr>"

definition small_tracer :: Trace where
  "small_tracer = tracer0\<lparr>icmp := False, udp := True, pSize := 20, maxTTL := 30\<rparr>"

definition Config0 :: Config where
  "Config0 = \<lparr>cfg_Theme = ''dark'', cfg_Wait = ''2s''\<rparr>"

text \<open>
  An environment with the command line of \<open>w\<close> and \<^verbatim>\<open>-p p\<close> in addition (or instead of
  the size it gives), and an outcome of \<^verbatim>\<open>NewTrace\<close> with the packet size of its tracer
  replaced by \<open>p\<close>.
\<close>

definition with_size :: "world \<Rightarrow> int \<Rightarrow> world" where
  "with_size w p =
     w\<lparr>cli_Flag := (\<lambda>a. (fst (cli_Flag w a), (snd (cli_Flag w a))(''p'' \<mapsto> FInt p)))\<rparr>"

definition resized ::
  "int \<Rightarrow> (Trace option \<times> error option) exec \<Rightarrow> (Trace option \<times> error option) exec" where
  "resized p x = map_exec (\<lambda>(t, e). (map_option (\<lambda>t. t\<lparr>pSize := p\<rparr>) t, e)) x"

text \<open>
  A command line that asks for UDP probes and names no size, and the tracer for UDP
  probes of 5 bytes.
\<close>

definition udp_world :: world where
  "udp_world = quiet\<lparr>cli_Flag := (\<lambda>a. (a, [''u'' \<mapsto> FBool True]))\<rparr>"

definition tiny_tracer :: Trace where
  "tiny_tracer = tracer0\<lparr>icmp := False, udp := True, pSize := 5, maxTTL := 30\<rparr>"

text \<open>The tracer of the examples with three hops at most, before its first interaction.\<close>

definition three_hops :: machine where
  "three_hops = start (tracer0\<lparr>maxTTL := 3\<rparr>)"

text \<open>
  The outcome of a call and the packets written, without the rest of the state; and
  the outcome alone, of a call that may not return.
\<close>

definition result_of :: "('a \<times> machine) exec option \<Rightarrow> 'a exec option" where
  "result_of x = map_option (map_exec fst) x"

definition sent :: "('a \<times> machine) exec \<Rightarrow> ('a \<times> packet list) exec" where
  "sent x = map_exec (\<lambda>(r, s). (r, wire s)) x"

text \<open>
  A record of the \<^verbatim>\<open>asns\<close> array that the loop of \<^verbatim>\<open>whois\<close> reads without a panic:
  an object with a string \<^verbatim>\<open>holder\<close> and a number \<^verbatim>\<open>asn\<close>.
\<close>

fun asn_record :: "json \<Rightarrow> (string \<times> float64) option" where
  "asn_record (JObj m) =
     (case (map_of m ''holder'', map_of m ''asn'') of
        (Some (JStr hs), Some (JNum a)) \<Rightarrow> Some (hs, a)
      | _ \<Rightarrow> None)"
| "asn_record _ = None"

text \<open>A prefix service that knows two origins for the resource \<^verbatim>\<open>8.8.8.8\<close>.\<close>

definition two_asns :: "json list" where
  "two_asns =
     [JObj [(''holder'', JStr ''FIRST AS''), (''asn'', JNum (F64 False 64500 0))],
      JObj [(''holder'', JStr ''SECOND AS''), (''asn'', JNum (F64 False 64501 0))]]"

definition ripe_world :: world where
  "ripe_world =
     quiet\<lparr>ripe_Data := (\<lambda>k q. if q = ''8.8.8.8''
                                then [(''data'', JObj [(''asns'', JArr two_asns)])] else [])\<rparr>"

text \<open>
  An environment where every read of the receive socket yields the same frame: an echo
  reply (type 0) with identifier 7 and sequence number 1, from the target.
\<close>

definition echo_world :: world where
  "echo_world = quiet\<lparr>Recvfrom := (\<lambda>k. RecvOK [0, 7, 1, 0, 192, 0, 2, 1, 10, 0, 0, 1] [])\<rparr>"

definition echo_resp :: ICMPResp where
  "echo_resp = \<lparr>r_typ = 0, r_id = 7, r_seq = 1, r_src = [192, 0, 2, 1],
                 r_ip = \<lparr>ip_dst = [10, 0, 0, 1], ip_id = 0\<rparr>\<rparr>"

text \<open>
  An environment that loses the reply to the first probe of a run started by \<^verbatim>\<open>Bind\<close>
  and answers every later probe from the target (a destination-unreachable frame that
  embeds the target as destination), and the tracer of the examples in UDP mode with
  30 hops at most.
\<close>

definition loss_world :: world where
  "loss_world =
     quiet\<lparr>Recvfrom := (\<lambda>k. if k < 10 then RecvErr EAGAIN
                              else RecvOK [3, 0, 0, 0, 192, 0, 2, 1, 192, 0, 2, 1] [])\<rparr>"

definition long_machine :: machine where
  "long_machine = start (tracer0\<lparr>icmp := False, udp := True, maxTTL := 30\<rparr>)"

definition nums_lasts :: "HopResp list \<Rightarrow> (int \<times> bool) list" where
  "nums_lasts rs = map (\<lambda>R. (h_num R, h_last R)) rs"

definition echo_hop :: HopResp where
  "echo_hop = \<lparr>h_num = 1, h_hop = [], h_ip = ''192.0.2.1'', h_elapsed = F64 False 7000 0,
                h_last = True, h_err = None, h_whois = Whois0\<rparr>"

definition timeout_hop :: "int \<Rightarrow> HopResp" where
  "timeout_hop h = \<lparr>h_num = h, h_hop = [], h_ip = [], h_elapsed = f64_zero, h_last = False,
                    h_err = None, h_whois = Whois0\<rparr>"

section \<open>Properties of the results sent\<close>

text \<open>A result that ends a single-pass scan: the test of the last loop of \<^verbatim>\<open>Run\<close>.\<close>

definition ends_scan :: "HopResp \<Rightarrow> bool" where
  "ends_scan R \<longleftrightarrow> h_last R \<or> h_err R \<noteq> None"

text \<open>
  A batch of the single-pass scan for hop \<open>h\<close>: every result carries \<open>h\<close>, and either no
  result has an error and there are \<open>retry\<close> of them, or the last result has an error,
  no other has, and there are \<open>retry\<close> at most.
\<close>

definition batch_ok :: "int \<Rightarrow> int \<Rightarrow> HopResp list \<Rightarrow> bool" where
  "batch_ok retry h b \<longleftrightarrow>
     list_all (\<lambda>R. h_num R = h) b
     \<and> (list_all (\<lambda>R. h_err R = None) b \<and> length b = nat retry
        \<or> b \<noteq> [] \<and> h_err (last b) \<noteq> None \<and> list_all (\<lambda>R. h_err R = None) (butlast b)
          \<and> length b \<le> nat retry)"

text \<open>
  The batches for the hops \<open>h\<close>, \<open>h + 1\<close>, \<open>\<dots>\<close> in this order, none following a batch
  with a result that ends the scan.
\<close>

fun batches_ok :: "int \<Rightarrow> int \<Rightarrow> HopResp list list \<Rightarrow> bool" where
  "batches_ok retry h [] = True"
| "batches_ok retry h (b # bs) =
     (batch_ok retry h b \<and> (list_ex ends_scan b \<longrightarrow> bs = []) \<and> batches_ok retry (h + 1) bs)"

text \<open>
  After each result with \<^verbatim>\<open>last\<close> set, no result with a larger hop number; and the
  same after the first such result only.
\<close>

fun settled :: "HopResp list \<Rightarrow> bool" where
  "settled [] = True"
| "settled (r # rs) = ((h_last r \<longrightarrow> list_all (\<lambda>q. h_num q \<le> h_num r) rs) \<and> settled rs)"

fun settled_by_first :: "HopResp list \<Rightarrow> bool" where
  "settled_by_first [] = True"
| "settled_by_first (r # rs) =
     (if h_last r then list_all (\<lambda>q. h_num q \<le> h_num r) rs else settled_by_first rs)"

text \<open>
  A slice that its memory holds: its array is there and as long as the capacity, and
  the length is within the capacity.
\<close>

definition valid :: "memory \<Rightarrow> slice \<Rightarrow> bool" where
  "valid m r \<longleftrightarrow> arr r < length m \<and> len r \<le> cap r \<and> length (m ! arr r) = cap r"

text \<open>The hop results that are somewhere in the memory.\<close>

definition entries :: "memory \<Rightarrow> HopResp set" where
  "entries m = (\<Union>a \<in> set m. set a)"

text \<open>
  The sendings of the hops \<open>h\<close>, \<open>h + 1\<close>, \<open>\<dots>\<close> by a task whose memory had \<open>n\<close> arrays
  before: the memory loses no array, the array of the slice sent is there, and at the
  sending of hop \<open>h\<close> no result in the memory has a number beyond \<open>h\<close>, and one with
  \<^verbatim>\<open>last\<close> set has the number \<open>h\<close> and no sending follows.
\<close>

fun sends_ok :: "int \<Rightarrow> nat \<Rightarrow> sending list \<Rightarrow> bool" where
  "sends_ok h n [] = True"
| "sends_ok h n (y # ys) =
     (n \<le> length (heap y) \<and> arr (batch y) < length (heap y)
      \<and> (\<forall>x \<in> entries (heap y). h_num x \<le> h \<and> (h_last x \<longrightarrow> h_num x = h \<and> ys = []))
      \<and> sends_ok (h + 1) (length (heap y)) ys)"

section \<open>The checksum\<close>

lemma int_and_1_odd: "(int n AND 1 \<noteq> 0) = odd n"
  by (simp add: and_one_eq mod_2_eq_odd)

lemma checkSum_even: "even (length bs) \<Longrightarrow> checkSum bs = checkSum_spec bs"
  by (simp add: checkSum_def checkSum_spec_def int_and_1_odd)

text \<open>
  C5. The claim: \<^verbatim>\<open>checkSum\<close> is the 16-bit one's-complement sum of the big-endian
  words, a final odd byte being added shifted left by 8 bits. The code adds the final
  odd byte as it is: on the single byte \<open>0x01\<close> it returns \<open>0xFFFE\<close>, where the sum of
  the claim gives \<open>0xFEFF\<close>. On data of even length (\<open>checkSum_even\<close>) the two agree.
\<close>

theorem checkSum_odd_byte_unshifted:
  "checkSum [0x01] = 0xFFFE \<and> checkSum_spec [0x01] = 0xFEFF"
  by (simp add: checkSum_def checkSum_spec_def)

section \<open>The UDP probe\<close>

lemma Uint16_be16: "Uint16 (be16 v) = v"
  unfolding Uint16_def be16_def
  by (rule bit_word_eqI) (auto simp: bit_simps)

lemma length_be16 [simp]: "length (be16 v) = 2"
  by (simp add: be16_def)

lemma length_be32 [simp]: "length (be32 v) = 4"
  by (simp add: be32_def)

lemma length_be64 [simp]: "length (be64 v) = 8"
  by (simp add: be64_def)

lemma uint16_of_int: "0 \<le> x \<Longrightarrow> x < 65536 \<Longrightarrow> uint (word_of_int x :: uint16) = x"
  by (simp add: uint_word_of_int)

lemma int64_id: "- (2 ^ 63) \<le> x \<Longrightarrow> x < 2 ^ 63 \<Longrightarrow> int64 x = x"
  by (simp add: int64_def)

lemma int64_below: "- (2 ^ 64) \<le> x \<Longrightarrow> x < - (2 ^ 63) \<Longrightarrow> int64 x = x + 2 ^ 64"
proof -
  assume a: "- (2 ^ 64) \<le> x" "x < - (2 ^ 63)"
  define M :: int where "M = 2 ^ 64"
  define y where "y = x + 2 ^ 63"
  have y: "0 \<le> y + M" "y + M < M" using a by (simp_all add: y_def M_def)
  have "y mod M = (y + M) mod M" by simp
  also have "\<dots> = y + M" using y by (rule mod_pos_pos_trivial)
  finally have "y mod M = y + M" .
  then have "(x + 2 ^ 63) mod 2 ^ 64 = x + 2 ^ 63 + 2 ^ 64" unfolding y_def M_def .
  then show ?thesis unfolding int64_def by simp
qed

lemma udpMessage_v4:
  assumes "28 \<le> p" "p \<le> 1500"
  shows "udpMessage lport rport p True =
     Returns (be16 (word_of_int lport) @ be16 (word_of_int rport) @ be16 (word_of_int (p - 20))
              @ be16 0 @ replicate (nat (p - 28)) 0)"
proof -
  have i: "int64 (p - (20 + 8)) = p - 28" using assms by (simp add: int64_id)
  have e: "8 + (p - 28) = p - 20" by simp
  show ?thesis unfolding udpMessage_def Let_def if_True i e
    using assms by (simp add: maxAlloc_def)
qed

lemma udp_decode:
  assumes lp: "0 \<le> lport" "lport < 65536" and rp: "0 \<le> rport" "rport < 65536"
    and p: "28 \<le> p" "p \<le> 1500"
    and b: "b = be16 (word_of_int lport) @ be16 (word_of_int rport) @ be16 (word_of_int (p - 20))
              @ be16 0 @ replicate (nat (p - 28)) 0"
  shows "uint (Uint16 (take 2 b)) = lport"
    and "uint (Uint16 (take 2 (drop 2 b))) = rport"
    and "uint (Uint16 (take 2 (drop 4 b))) = p - 20"
    and "Uint16 (take 2 (drop 6 b)) = 0"
    and "drop 8 b = replicate (nat (p - 28)) 0"
    and "int (length b) = p - 20"
proof -
  have l: "0 \<le> p - 20" "p - 20 < 65536" using p by auto
  show "uint (Uint16 (take 2 b)) = lport"
    unfolding b by (simp add: Uint16_be16 uint16_of_int [OF lp])
  show "uint (Uint16 (take 2 (drop 2 b))) = rport"
    unfolding b by (simp add: Uint16_be16 uint16_of_int [OF rp])
  show "uint (Uint16 (take 2 (drop 4 b))) = p - 20"
  proof -
    define q where "q = p - 20"
    have eq: "b = be16 (word_of_int lport) @ be16 (word_of_int rport) @ be16 (word_of_int q)
                  @ be16 0 @ replicate (nat (p - 28)) 0"
      unfolding q_def by (rule b)
    have "uint (word_of_int q :: uint16) = q"
      using l unfolding q_def [symmetric] by (rule uint16_of_int)
    then show ?thesis unfolding eq by (simp add: Uint16_be16 q_def)
  qed
  show "Uint16 (take 2 (drop 6 b)) = 0"
    unfolding b by (simp add: Uint16_be16)
  show "drop 8 b = replicate (nat (p - 28)) 0"
    unfolding b by simp
  show "int (length b) = p - 20"
    unfolding b using p by simp
qed

text \<open>
  C6. For every packet size from 28 to 1500, the bytes of the IPv4 UDP probe (built by
  \<^verbatim>\<open>Sendv4\<close> for the port 33434 that \<^verbatim>\<open>NextHop\<close> passes down) decode to the source
  port 64000 plus 0, 100 or 200, the destination port 33434, a length field of the
  packet size minus 20 and a zero checksum; the rest is a payload of zero bytes, and
  the whole is the packet size minus the 20 bytes of the IP header.
\<close>

theorem udp_probe_fields:
  assumes mode: "\<not> icmp s" "udp s"
    and size: "28 \<le> pSize s" "pSize s \<le> 1500"
  shows "\<exists>lport b.
           Sendv4_probe w s seq0 33434 = Returns (17, b, step s) \<and>
           lport = 64000 + int (rand_src w (tick s) mod 3) * 100 \<and>
           lport \<in> {64000, 64100, 64200} \<and>
           uint (Uint16 (take 2 b)) = lport \<and>
           uint (Uint16 (take 2 (drop 2 b))) = 33434 \<and>
           uint (Uint16 (take 2 (drop 4 b))) = pSize s - 20 \<and>
           Uint16 (take 2 (drop 6 b)) = 0 \<and>
           drop 8 b = replicate (nat (pSize s - 28)) 0 \<and>
           int (length b) = pSize s - 20"
proof -
  define r where "r = rand_src w (tick s) mod 3"
  define lport where "lport = 64000 + int r * 100"
  define b where "b = be16 (word_of_int lport) @ be16 (word_of_int 33434)
                      @ be16 (word_of_int (pSize s - 20)) @ be16 0
                      @ replicate (nat (pSize s - 28)) 0"
  have r3: "r < 3" by (simp add: r_def)
  then have "r = 0 \<or> r = 1 \<or> r = 2" by auto
  then have mem: "lport \<in> {64000, 64100, 64200}" by (auto simp: lport_def)
  then have lp: "0 \<le> lport" "lport < 65536" by auto
  have "udpMessage lport 33434 (pSize s) True = Returns b"
    unfolding b_def by (rule udpMessage_v4 [OF size])
  then have probe: "Sendv4_probe w s seq0 33434 = Returns (17, b, step s)"
    using mode by (simp add: Sendv4_probe_def Let_def lport_def r_def)
  note d = udp_decode [OF lp _ _ size b_def]
  show ?thesis
    using probe mem d by (simp add: lport_def r_def)
qed

theorem udp_probe_fields_witness:
  "\<not> icmp udp_machine \<and> udp udp_machine \<and> 28 \<le> pSize udp_machine \<and> pSize udp_machine \<le> 1500
   \<and> (\<exists>lport b.
           Sendv4_probe quiet udp_machine 1 33434 = Returns (17, b, step udp_machine) \<and>
           lport = 64000 + int (rand_src quiet (tick udp_machine) mod 3) * 100 \<and>
           lport \<in> {64000, 64100, 64200} \<and>
           uint (Uint16 (take 2 b)) = lport \<and>
           uint (Uint16 (take 2 (drop 2 b))) = 33434 \<and>
           uint (Uint16 (take 2 (drop 4 b))) = pSize udp_machine - 20 \<and>
           Uint16 (take 2 (drop 6 b)) = 0 \<and>
           drop 8 b = replicate (nat (pSize udp_machine - 28)) 0 \<and>
           int (length b) = pSize udp_machine - 20)"
proof -
  have h: "\<not> icmp udp_machine" "udp udp_machine" "28 \<le> pSize udp_machine"
    "pSize udp_machine \<le> 1500"
    by (simp_all add: udp_machine_def start_def tracer0_def Trace.extend_def)
  from h udp_probe_fields [OF h, of quiet 1] show ?thesis by blast
qed

section \<open>The TCP probe\<close>

lemma length_tcpMessage: "length (tcpMessage lport rport p isIPv4 rnd now) = 44"
  by (simp add: tcpMessage_def Let_def)




lemma setTCPCheckSum_Some:
  "17 < length h \<Longrightarrow> \<exists>h'. setTCPCheckSum a b h = Some h'"
  by (simp add: setTCPCheckSum_def Let_def)




section \<open>The JSON line\<close>

lemma fmt_f_12_345: "fmt_f 3 (F64 False 0x18B0A3D70A3D71 (- 49)) = ''12.345''"
  by (simp add: round_scaled_def Let_def digits.simps digit_char_def)

lemma fmt_f_64500: "fmt_f 0 (F64 False 64500 0) = ''64500''"
  by (simp add: round_scaled_def Let_def digits.simps digit_char_def)

lemma fmt_d_5: "fmt_d 5 = ''5''"
  by (simp add: fmt_d_def digits.simps digit_char_def)

lemma Marshal_shape:
  \<open>Marshal h =
     Some (''{ "Id": '' @ fmt_d (h_num h) @ '', "Hop": "'' @ h_hop h @ ''", "IP" : "'' @ h_ip h
           @ ''", "Elapsed": '' @ fmt_f 3 (h_elapsed h) @ '', "Holder": "'' @ holder (h_whois h)
           @ ''", "ASN": '' @ fmt_f 0 (asn (h_whois h)) @ '', "Last": '' @ fmt_t (h_last h)
           @ '' }'')\<close>
  by (simp add: Marshal_def Sprintf_def is_digit_def)

text \<open>
  C7, as amended. For every hop result, \<^verbatim>\<open>Marshal\<close> produces exactly the line
  \<^verbatim>\<open>{ "Id": <int>, "Hop": "<ptr>", "IP" : "<ip>", "Elapsed": <float, 3 decimals>,
  "Holder": "<string>", "ASN": <float, 0 decimals>, "Last": <bool> }\<close>, with a space
  between \<^verbatim>\<open>"IP"\<close> and its colon; for the example of the specification it yields that
  line with \<^verbatim>\<open>Elapsed: 12.345\<close> and \<^verbatim>\<open>ASN: 64500\<close>.
\<close>

theorem Marshal_line:
  \<open>Marshal h =
     Some (''{ "Id": '' @ fmt_d (h_num h) @ '', "Hop": "'' @ h_hop h @ ''", "IP" : "'' @ h_ip h
           @ ''", "Elapsed": '' @ fmt_f 3 (h_elapsed h) @ '', "Holder": "'' @ holder (h_whois h)
           @ ''", "ASN": '' @ fmt_f 0 (asn (h_whois h)) @ '', "Last": '' @ fmt_t (h_last h)
           @ '' }'')
   \<and> Marshal example_hop =
       Some ''{ "Id": 5, "Hop": "r.x", "IP" : "1.2.3.4", "Elapsed": 12.345, "Holder": "EXAMPLE AS", "ASN": 64500, "Last": false }''\<close>
proof -
  have \<open>Marshal example_hop =
       Some ''{ "Id": 5, "Hop": "r.x", "IP" : "1.2.3.4", "Elapsed": 12.345, "Holder": "EXAMPLE AS", "ASN": 64500, "Last": false }''\<close>
    unfolding Marshal_shape
    by (simp add: example_hop_def fmt_f_12_345 fmt_f_64500 fmt_d_5 fmt_t_def del: fmt_f.simps)
  with Marshal_shape [of h] show ?thesis by blast
qed

theorem Marshal_line_witness:
  \<open>Marshal (example_hop\<lparr>h_last := True\<rparr>) =
     Some ''{ "Id": 5, "Hop": "r.x", "IP" : "1.2.3.4", "Elapsed": 12.345, "Holder": "EXAMPLE AS", "ASN": 64500, "Last": true }''\<close>
  using Marshal_line [of "example_hop\<lparr>h_last := True\<rparr>"]
  by (simp add: example_hop_def fmt_f_12_345 fmt_f_64500 fmt_d_5 fmt_t_def del: fmt_f.simps)

text \<open>
  C7 as stated fails: the line of the specification has no space between \<^verbatim>\<open>"IP"\<close> and
  the colon, the format string of the code has one.
\<close>

theorem Marshal_spec_line_counterexample:
  \<open>Marshal example_hop \<noteq>
     Some ''{ "Id": 5, "Hop": "r.x", "IP": "1.2.3.4", "Elapsed": 12.345, "Holder": "EXAMPLE AS", "ASN": 64500, "Last": false }''\<close>
  unfolding Marshal_shape
  by (simp add: example_hop_def fmt_f_12_345 fmt_f_64500 fmt_d_5 fmt_t_def del: fmt_f.simps)

section \<open>Packet sizes below the header overhead\<close>

lemma SetFlag_other: "k \<noteq> ''p'' \<Longrightarrow> SetFlag (flag(''p'' \<mapsto> v)) k d = SetFlag flag k d"
  by (simp add: SetFlag_def)

lemma SetFlag_p: "SetFlag (flag(''p'' \<mapsto> v)) ''p'' d = v"
  by (simp add: SetFlag_def)

lemma setReportDCount_pSize: "setReportDCount (t\<lparr>pSize := p\<rparr>) c = (setReportDCount t c)\<lparr>pSize := p\<rparr>"
  by (simp add: setReportDCount_def)

lemma NewTrace_fill_size:
  assumes "as_int (SetFlag flag ''p'' (FInt 52)) \<noteq> None"
  shows "NewTrace_fill (flag(''p'' \<mapsto> FInt p)) cfg target ips0 ip0 lAddr fam pr
         = map_option (\<lambda>t. t\<lparr>pSize := p\<rparr>) (NewTrace_fill flag cfg target ips0 ip0 lAddr fam pr)"
proof -
  from assms obtain q where q: "as_int (SetFlag flag ''p'' (FInt 52)) = Some q" by auto
  show ?thesis
    unfolding NewTrace_fill_def
    by (simp add: SetFlag_other SetFlag_p q setReportDCount_pSize [symmetric]
             split: Option.bind_split)
qed

lemma pick_ip_cli: "pick_ip (w\<lparr>cli_Flag := f\<rparr>) a b xs = pick_ip w a b xs"
  by (induction xs) simp_all

lemma NewTrace_size:
  assumes "as_int (SetFlag (snd (cli_Flag w args)) ''p'' (FInt 52)) \<noteq> None"
  shows "NewTrace (with_size w p) args cfg = resized p (NewTrace w args cfg)"
proof -
  obtain target flag where cf: "cli_Flag w args = (target, flag)" by (cases "cli_Flag w args")
  have a: "as_int (SetFlag flag ''p'' (FInt 52)) \<noteq> None" using assms cf by simp
  have h: "(flag(''p'' \<mapsto> FInt p)) ''help'' = flag ''help''" by simp
  show ?thesis
    unfolding NewTrace_def with_size_def resized_def
    by (simp add: cf SetFlag_other h NewTrace_fill_size [OF a] pick_ip_cli
             split: option.splits sum.splits)
qed

lemma NewTrace_errors:
  "NewTrace w args cfg = Returns (x, Some e) \<Longrightarrow>
   LookupIP w (fst (cli_Flag w args)) = Inl e
   \<or> e = ErrMsg ''there is not A or AAAA record''
   \<or> (\<exists>a. getLocalAddr w a = Inl e)"
  by (auto simp: NewTrace_def Let_def split: prod.splits option.splits if_splits sum.splits)

lemma udpMessage_small:
  assumes "- (2 ^ 63) + 28 \<le> p" "p < 28"
  shows "udpMessage lport rport p True =
     Returns (be16 (word_of_int lport) @ be16 (word_of_int rport) @ be16 (word_of_int (p - 20))
              @ be16 0)"
proof -
  have i: "int64 (p - (20 + 8)) = p - 28" using assms by (simp add: int64_id)
  have e: "8 + (p - 28) = p - 20" by simp
  show ?thesis unfolding udpMessage_def Let_def if_True i e
    using assms by simp
qed

lemma udpMessage_wrapped:
  assumes "- (2 ^ 63) \<le> p" "p < - (2 ^ 63) + 28"
  shows "udpMessage lport rport p True = Panics"
proof -
  have i: "int64 (p - (20 + 8)) = p - 28 + 2 ^ 64"
    using assms int64_below [of "p - 28"] by simp
  have "maxAlloc < p - 28 + 2 ^ 64" "0 < p - 28 + 2 ^ 64"
    using assms by (simp_all add: maxAlloc_def)
  then show ?thesis unfolding udpMessage_def Let_def if_True i by simp
qed

lemma Sendv4_probe_returns:
  assumes "\<not> icmp s" and "udp s \<longrightarrow> - (2 ^ 63) + 28 \<le> pSize s \<and> pSize s < 28"
  shows "\<exists>pr b s1. Sendv4_probe w s q rp = Returns (pr, b, s1)"
proof (cases "udp s")
  case True
  with assms(2) have "- (2 ^ 63) + 28 \<le> pSize s" "pSize s < 28" by auto
  from udpMessage_small [OF this] assms(1) True show ?thesis
    by (simp add: Sendv4_probe_def Let_def)
next
  case False
  show ?thesis
  proof (cases "tcp s")
    case True
    let ?m = "tcpMessage 0 33434 64 True (word_of_nat (rand_src w (tick s))) (time_unix w (tick s + 1))"
    obtain b where "setTCPCheckSum (src s) (ip s) ?m = Some b"
      using setTCPCheckSum_Some [of ?m "src s" "ip s"] by (auto simp: length_tcpMessage)
    with assms(1) False True show ?thesis by (simp add: Sendv4_probe_def Let_def)
  next
    case nt: False
    with assms(1) False show ?thesis by (simp add: Sendv4_probe_def)
  qed
qed

lemma Sendv4_returns:
  assumes "Sendv4_probe w s q rp = Returns (pr, b, s0)"
  shows "\<exists>r s1. Sendv4 w s i q rp = Returns (r, s1)
           \<and> (\<forall>e. r = Some e \<longrightarrow>
                 (\<exists>k. ListenPacket w k = Some e \<or> NewRawConn w k = Some e \<or> WriteTo w k = Some e))"
  using assms by (auto simp: Sendv4_def Let_def split: option.splits)

lemma Send_v4_returns:
  assumes v4: "IsIPv4 w (ip s)" and m: "\<not> icmp s"
    and u: "udp s \<longrightarrow> - (2 ^ 63) + 28 \<le> pSize s \<and> pSize s < 28"
  shows "\<exists>i q r s1. Send w s port = Returns ((i, q, r), s1)
           \<and> (\<forall>e. r = Some e \<longrightarrow>
                 (\<exists>k. snd (sys_Socket w k) = Some e \<or> ListenPacket w k = Some e
                      \<or> NewRawConn w k = Some e \<or> WriteTo w k = Some e))"
proof -
  define s2 where "s2 = step (s\<lparr>seq := seq s + 1\<rparr>)"
  have p: "IsIPv4 w (ip s2)" "\<not> icmp s2"
    "udp s2 \<longrightarrow> - (2 ^ 63) + 28 \<le> pSize s2 \<and> pSize s2 < 28"
    using v4 m u by (simp_all add: s2_def step_def)
  from Sendv4_probe_returns [OF p(2,3)]
  obtain pr b s0 where "Sendv4_probe w s2 (seq s) port = Returns (pr, b, s0)" by blast
  from Sendv4_returns [OF this, of "38840 + seq s"]
  obtain r s1 where r: "Sendv4 w s2 (38840 + seq s) (seq s) port = Returns (r, s1)"
    "\<forall>e. r = Some e \<longrightarrow>
        (\<exists>k. ListenPacket w k = Some e \<or> NewRawConn w k = Some e \<or> WriteTo w k = Some e)"
    by blast
  show ?thesis
  proof (cases "snd (sys_Socket w (tick (s\<lparr>seq := seq s + 1\<rparr>)))")
    case None
    with p(1) r show ?thesis
      by (simp add: Send_def Let_def s2_def [symmetric]) blast
  next
    case (Some e)
    then show ?thesis
      by (simp add: Send_def Let_def s2_def [symmetric]) blast
  qed
qed

text \<open>
  C9, as amended. A packet size \<open>p\<close> below 28, the header overhead of an IPv4 UDP probe,
  is rejected nowhere. The outcome of \<^verbatim>\<open>NewTrace\<close> does not depend on the value of
  \<^verbatim>\<open>-p\<close>: with \<open>p\<close> it is the outcome with any other size, the packet size of the
  tracer aside, and the only errors it returns are those of the address lookups. The
  IPv4 UDP probe is built all the same, as the bare 8-byte UDP header with no payload,
  its length field being \<open>p - 20\<close> modulo \<open>2\<^sup>1\<^sup>6\<close>; only where \<open>p - 28\<close> leaves the range
  of \<^verbatim>\<open>int\<close> (\<open>p\<close> less than \<open>28 - 2\<^sup>6\<^sup>3\<close>) does it wrap to a length that makes
  \<^verbatim>\<open>make\<close> panic. For an IPv4 target in UDP or TCP mode \<^verbatim>\<open>Send\<close> then returns, and
  an error it returns is the error of one of its system calls. (The ICMP probes are
  built by functions that are not in \<^verbatim>\<open>trace.go\<close>.)
\<close>

theorem small_packet_size_not_rejected:
  assumes "- (2 ^ 63) \<le> p" and "p < 28"
  shows "(as_int (SetFlag (snd (cli_Flag w args)) ''p'' (FInt 52)) \<noteq> None \<longrightarrow>
            NewTrace (with_size w p) args cfg = resized p (NewTrace w args cfg))
       \<and> (NewTrace (with_size w p) args cfg = Returns (x, Some e) \<longrightarrow>
            LookupIP w (fst (cli_Flag w args)) = Inl e
            \<or> e = ErrMsg ''there is not A or AAAA record''
            \<or> (\<exists>a. getLocalAddr w a = Inl e))
       \<and> udpMessage lport rport p True =
           (if - (2 ^ 63) + 28 \<le> p
            then Returns (be16 (word_of_int lport) @ be16 (word_of_int rport)
                          @ be16 (word_of_int (p - 20)) @ be16 0)
            else Panics)
       \<and> (\<not> icmp s \<and> udp s \<and> pSize s = p \<and> - (2 ^ 63) + 28 \<le> p \<longrightarrow>
            Sendv4_probe w s seq0 rport
            = Returns (17, be16 (word_of_int (64000 + int (rand_src w (tick s) mod 3) * 100))
                           @ be16 (word_of_int rport) @ be16 (word_of_int (p - 20)) @ be16 0,
                       step s))
       \<and> (IsIPv4 w (ip s) \<and> \<not> icmp s \<and> pSize s = p \<and> (udp s \<longrightarrow> - (2 ^ 63) + 28 \<le> p) \<longrightarrow>
            (\<exists>i q r s1. Send w s port = Returns ((i, q, r), s1)
               \<and> (\<forall>e. r = Some e \<longrightarrow>
                     (\<exists>k. snd (sys_Socket w k) = Some e \<or> ListenPacket w k = Some e
                          \<or> NewRawConn w k = Some e \<or> WriteTo w k = Some e))))"
proof (intro conjI impI)
  assume "as_int (SetFlag (snd (cli_Flag w args)) ''p'' (FInt 52)) \<noteq> None"
  then show "NewTrace (with_size w p) args cfg = resized p (NewTrace w args cfg)"
    by (rule NewTrace_size)
next
  assume "NewTrace (with_size w p) args cfg = Returns (x, Some e)"
  from NewTrace_errors [OF this]
  show "LookupIP w (fst (cli_Flag w args)) = Inl e
        \<or> e = ErrMsg ''there is not A or AAAA record''
        \<or> (\<exists>a. getLocalAddr w a = Inl e)"
    by (simp add: with_size_def)
next
  show "udpMessage lport rport p True =
           (if - (2 ^ 63) + 28 \<le> p
            then Returns (be16 (word_of_int lport) @ be16 (word_of_int rport)
                          @ be16 (word_of_int (p - 20)) @ be16 0)
            else Panics)"
  proof (cases "- (2 ^ 63) + 28 \<le> p")
    case True
    from udpMessage_small [OF True assms(2)] True show ?thesis by simp
  next
    case False
    then have "p < - (2 ^ 63) + 28" by simp
    from udpMessage_wrapped [OF assms(1) this] False show ?thesis by simp
  qed
next
  assume a: "\<not> icmp s \<and> udp s \<and> pSize s = p \<and> - (2 ^ 63) + 28 \<le> p"
  then have "- (2 ^ 63) + 28 \<le> p" by simp
  from udpMessage_small [OF this assms(2)] a
  show "Sendv4_probe w s seq0 rport
            = Returns (17, be16 (word_of_int (64000 + int (rand_src w (tick s) mod 3) * 100))
                           @ be16 (word_of_int rport) @ be16 (word_of_int (p - 20)) @ be16 0,
                       step s)"
    by (simp add: Sendv4_probe_def Let_def)
next
  assume a: "IsIPv4 w (ip s) \<and> \<not> icmp s \<and> pSize s = p \<and> (udp s \<longrightarrow> - (2 ^ 63) + 28 \<le> p)"
  then have "udp s \<longrightarrow> - (2 ^ 63) + 28 \<le> pSize s \<and> pSize s < 28" using assms(2) by simp
  with a show "\<exists>i q r s1. Send w s port = Returns ((i, q, r), s1)
               \<and> (\<forall>e. r = Some e \<longrightarrow>
                     (\<exists>k. snd (sys_Socket w k) = Some e \<or> ListenPacket w k = Some e
                          \<or> NewRawConn w k = Some e \<or> WriteTo w k = Some e))"
    by (intro Send_v4_returns) simp_all
qed

lemma NewTrace_udp_world:
  "NewTrace udp_world ''192.0.2.1'' Config0 = Returns (Some (tiny_tracer\<lparr>pSize := 52\<rparr>), None)"
  by (simp add: NewTrace_def udp_world_def quiet_def NewTrace_fill_def SetFlag_def
        setReportDCount_def tiny_tracer_def tracer0_def Config0_def To4_def AF_INET_def
        IPPROTO_ICMP_def digits.simps digit_char_def)


theorem small_packet_size_not_rejected_witness:
  "- (2 ^ 63) \<le> (5 :: int) \<and> (5 :: int) < 28
   \<and> NewTrace udp_world ''192.0.2.1'' Config0 = Returns (Some (tiny_tracer\<lparr>pSize := 52\<rparr>), None)
   \<and> NewTrace (with_size udp_world 5) ''192.0.2.1'' Config0 = Returns (Some tiny_tracer, None)
   \<and> pSize tiny_tracer = 5
   \<and> udpMessage 64100 33434 5 True = Returns [0xFA, 0x64, 0x82, 0x9A, 0xFF, 0xF1, 0, 0]
   \<and> Sendv4_probe udp_world (start tiny_tracer) 1 33434
       = Returns (17, [0xFA, 0, 0x82, 0x9A, 0xFF, 0xF1, 0, 0], step (start tiny_tracer))
   \<and> (\<exists>i q r s1. Send udp_world (start tiny_tracer) 33434 = Returns ((i, q, r), s1))
   \<and> sent (Send udp_world (start tiny_tracer) 33434)
       = Returns ((38841, 1, None),
           [Packet4 \<lparr>Version = 4, Len = 20, TotalLen = 28, Protocol = 17, ID = 38841,
                     TTL = 0, Dst = Some [192, 0, 2, 1]\<rparr>
                    [0xFA, 0x64, 0x82, 0x9A, 0xFF, 0xF1, 0, 0]])"
proof -
  have h: "- (2 ^ 63) \<le> (5 :: int)" "(5 :: int) < 28" by simp_all
  note th = small_packet_size_not_rejected [OF h, where w = udp_world and args = "''192.0.2.1''"
      and cfg = Config0 and lport = 64100 and rport = 33434 and s = "start tiny_tracer"
      and ?seq0.0 = 1 and port = 33434]
  have f: "as_int (SetFlag (snd (cli_Flag udp_world ''192.0.2.1'')) ''p'' (FInt 52)) \<noteq> None"
    by (simp add: udp_world_def quiet_def SetFlag_def)
  have a: "\<not> icmp (start tiny_tracer) \<and> udp (start tiny_tracer) \<and> pSize (start tiny_tracer) = 5
           \<and> - (2 ^ 63) + 28 \<le> (5 :: int)"
    by (simp add: start_def tiny_tracer_def tracer0_def Trace.extend_def)
  have v4: "IsIPv4 udp_world (ip (start tiny_tracer))"
    by (simp add: udp_world_def quiet_def start_def tiny_tracer_def tracer0_def
          Trace.extend_def To4_def)
  have r: "rand_src udp_world (tick (start tiny_tracer)) = 0"
    by (simp add: udp_world_def quiet_def start_def Trace.extend_def)
  from th f have "NewTrace (with_size udp_world 5) ''192.0.2.1'' Config0
                  = resized 5 (NewTrace udp_world ''192.0.2.1'' Config0)" by blast
  then have 1: "NewTrace (with_size udp_world 5) ''192.0.2.1'' Config0
                = Returns (Some tiny_tracer, None)"
    by (simp add: NewTrace_udp_world resized_def tiny_tracer_def)
  from th have "udpMessage 64100 33434 5 True =
           (if - (2 ^ 63) + 28 \<le> (5 :: int)
            then Returns (be16 (word_of_int 64100) @ be16 (word_of_int 33434)
                          @ be16 (word_of_int (5 - 20)) @ be16 0)
            else Panics)" by blast
  then have 2: "udpMessage 64100 33434 5 True = Returns [0xFA, 0x64, 0x82, 0x9A, 0xFF, 0xF1, 0, 0]"
    by (simp add: be16_def)
  from th a have "Sendv4_probe udp_world (start tiny_tracer) 1 33434
            = Returns (17, be16 (word_of_int (64000 + int (rand_src udp_world (tick (start tiny_tracer)) mod 3) * 100))
                           @ be16 (word_of_int 33434) @ be16 (word_of_int (5 - 20)) @ be16 0,
                       step (start tiny_tracer))" by blast
  then have 3: "Sendv4_probe udp_world (start tiny_tracer) 1 33434
       = Returns (17, [0xFA, 0, 0x82, 0x9A, 0xFF, 0xF1, 0, 0], step (start tiny_tracer))"
    by (simp add: r be16_def)
  from th a v4
  have 4: "\<exists>i q r s1. Send udp_world (start tiny_tracer) 33434 = Returns ((i, q, r), s1)"
    by blast
  have 5: "sent (Send udp_world (start tiny_tracer) 33434)
       = Returns ((38841, 1, None),
           [Packet4 \<lparr>Version = 4, Len = 20, TotalLen = 28, Protocol = 17, ID = 38841,
                     TTL = 0, Dst = Some [192, 0, 2, 1]\<rparr>
                    [0xFA, 0x64, 0x82, 0x9A, 0xFF, 0xF1, 0, 0]])"
    by (simp add: sent_def Send_def Sendv4_def Sendv4_probe_def udp_world_def quiet_def
          tiny_tracer_def tracer0_def start_def Trace.extend_def step_def To4_def Let_def
          udpMessage_def be16_def int64_def maxAlloc_def)
  have 6: "pSize tiny_tracer = 5" by (simp add: tiny_tracer_def)
  show ?thesis using h 1 2 3 4 5 6 NewTrace_udp_world by blast
qed

text \<open>
  C9 as stated fails: with \<^verbatim>\<open>-u -p 20\<close> the tracer is made, and its first probe is
  written to the network without an error.
\<close>

theorem small_packet_rejected_counterexample:
  "NewTrace small_world ''192.0.2.1'' Config0 = Returns (Some small_tracer, None)
   \<and> pSize small_tracer = 20
   \<and> sent (Send small_world (start small_tracer) 33434)
       = Returns ((38841, 1, None),
           [Packet4 \<lparr>Version = 4, Len = 20, TotalLen = 28, Protocol = 17, ID = 38841,
                     TTL = 0, Dst = Some [192, 0, 2, 1]\<rparr>
                    [0xFA, 0x64, 0x82, 0x9A, 0, 0, 0, 0]])"
proof -
  have n: "NewTrace small_world ''192.0.2.1'' Config0 = Returns (Some small_tracer, None)"
    by (simp add: NewTrace_def small_world_def quiet_def NewTrace_fill_def SetFlag_def
          setReportDCount_def small_tracer_def tracer0_def Config0_def To4_def AF_INET_def
          IPPROTO_ICMP_def digits.simps digit_char_def)
  have s: "sent (Send small_world (start small_tracer) 33434)
       = Returns ((38841, 1, None),
           [Packet4 \<lparr>Version = 4, Len = 20, TotalLen = 28, Protocol = 17, ID = 38841,
                     TTL = 0, Dst = Some [192, 0, 2, 1]\<rparr>
                    [0xFA, 0x64, 0x82, 0x9A, 0, 0, 0, 0]])"
    by (simp add: sent_def Send_def Sendv4_def Sendv4_probe_def small_world_def quiet_def
          small_tracer_def tracer0_def start_def Trace.extend_def step_def To4_def Let_def
          udpMessage_def be16_def int64_def maxAlloc_def)
  show ?thesis using n s by (simp add: small_tracer_def tracer0_def)
qed


section \<open>The origin-AS lookup\<close>

lemma whois_asns_step:
  "asn_record h = Some (hs, a) \<Longrightarrow>
   whois_asns (h # rest) resp = whois_asns rest (resp\<lparr>holder := hs, asn := a\<rparr>)"
  by (cases h) (auto split: option.splits json.splits)

lemma whois_asns_last:
  assumes "\<forall>h \<in> set asns. asn_record h \<noteq> None"
  shows "whois_asns asns resp =
         Some (if asns = [] then resp
               else resp\<lparr>holder := fst (the (asn_record (last asns))),
                         asn := snd (the (asn_record (last asns)))\<rparr>)"
  using assms
proof (induction asns arbitrary: resp)
  case Nil
  then show ?case by simp
next
  case (Cons h rest)
  then obtain hs a where h: "asn_record h = Some (hs, a)" by fastforce
  have "whois_asns (h # rest) resp = whois_asns rest (resp\<lparr>holder := hs, asn := a\<rparr>)"
    using h by (rule whois_asns_step)
  also have "\<dots> = Some (if rest = [] then resp\<lparr>holder := hs, asn := a\<rparr>
               else resp\<lparr>holder := hs, asn := a\<rparr>\<lparr>holder := fst (the (asn_record (last rest))),
                         asn := snd (the (asn_record (last rest)))\<rparr>)"
    using Cons by simp
  finally show ?case using h by simp
qed

text \<open>
  C8, as amended. When the response of the prefix service holds a non-empty \<^verbatim>\<open>asns\<close>
  array of records with a string \<^verbatim>\<open>holder\<close> and a number \<^verbatim>\<open>asn\<close>, \<^verbatim>\<open>whois\<close> returns
  the holder and the asn of the last record of the array (each record overwrites the
  one before; with a single record this is the first). Which resource is queried is
  not part of the amended claim.
\<close>

theorem whois_takes_last_record:
  assumes "map_of (ripe_Data w k (whois_resource w ip0)) ''data'' = Some (JObj d)"
    and "map_of d ''asns'' = Some (JArr asns)"
    and "asns \<noteq> []"
    and "\<forall>h \<in> set asns. asn_record h \<noteq> None"
    and "asn_record (last asns) = Some (hs, a)"
  shows "whois w k ip0 = Returns (\<lparr>holder = hs, asn = a\<rparr>, None)"
  using assms by (simp add: whois_def whois_asns_last Whois0_def)

theorem whois_takes_last_record_witness:
  "map_of (ripe_Data ripe_world 0 (whois_resource ripe_world ''8.8.8.8'')) ''data''
     = Some (JObj [(''asns'', JArr two_asns)])
   \<and> map_of [(''asns'', JArr two_asns)] ''asns'' = Some (JArr two_asns)
   \<and> two_asns \<noteq> []
   \<and> list_all (\<lambda>h. asn_record h \<noteq> None) two_asns
   \<and> asn_record (last two_asns) = Some (''SECOND AS'', F64 False 64501 0)
   \<and> whois ripe_world 0 ''8.8.8.8'' = Returns (\<lparr>holder = ''SECOND AS'', asn = F64 False 64501 0\<rparr>, None)"
proof -
  have 1: "map_of (ripe_Data ripe_world 0 (whois_resource ripe_world ''8.8.8.8'')) ''data''
     = Some (JObj [(''asns'', JArr two_asns)])"
    by (simp add: ripe_world_def quiet_def whois_resource_def)
  have 2: "map_of [(''asns'', JArr two_asns)] ''asns'' = Some (JArr two_asns)" by simp
  have 3: "two_asns \<noteq> []" by (simp add: two_asns_def)
  have 4: "\<forall>h \<in> set two_asns. asn_record h \<noteq> None" by (simp add: two_asns_def)
  have 5: "asn_record (last two_asns) = Some (''SECOND AS'', F64 False 64501 0)"
    by (simp add: two_asns_def)
  from whois_takes_last_record [OF 1 2 3 4 5] 1 2 3 4 5 show ?thesis
    by (simp add: list_all_iff)
qed

text \<open>
  C8 as stated fails: for \<^verbatim>\<open>8.8.8.8\<close>, whose \<^verbatim>\<open>/24\<close> prefix is \<^verbatim>\<open>8.8.8.0/24\<close>, the
  resource queried is \<^verbatim>\<open>8.8.8.8\<close> itself, and of two records the second one is
  returned.
\<close>

theorem whois_widened_first_record_counterexample:
  "IPNet_String ripe_world (ParseCIDR ripe_world ''8.8.8.8/24'') = ''8.8.8.0/24''
   \<and> whois_resource ripe_world ''8.8.8.8'' = ''8.8.8.8''
   \<and> asn_record (hd two_asns) = Some (''FIRST AS'', F64 False 64500 0)
   \<and> whois ripe_world 0 ''8.8.8.8''
       = Returns (\<lparr>holder = ''SECOND AS'', asn = F64 False 64501 0\<rparr>, None)"
  by (simp add: ripe_world_def quiet_def whois_resource_def IPNet_String_def whois_def
        two_asns_def Whois0_def digits.simps digit_char_def)

section \<open>Receiving in ICMP mode\<close>

lemma icmp_step [simp]: "icmp (step s) = icmp s"
  by (simp add: step_def)

lemma Recv_loop_icmp_seq:
  assumes "Recv_loop w i q ts bl resp s = Some out"
  shows "icmp s \<longrightarrow> (\<forall>r s1. out = Returns ((r, None), s1) \<longrightarrow> r_seq r = q)"
proof (rule Recv_loop.raw_induct [where P = "\<lambda>w i q ts bl resp s out.
          icmp s \<longrightarrow> (\<forall>r s1. out = Returns ((r, None), s1) \<longrightarrow> r_seq r = q)", OF _ assms], goal_cases)
  case (1 f w id0 seq0 ts blen resp s out)
  have IH: "\<And>w id0 seq0 ts blen resp s r s1.
              f w id0 seq0 ts blen resp s = Some (Returns ((r, None), s1)) \<Longrightarrow> icmp s \<Longrightarrow> r_seq r = seq0"
    using 1(1) by blast
  from 1(2) show ?case
    by (auto simp: Let_def split: recv.splits if_splits option.splits dest!: IH)
qed

lemma Recv_loop_accept:
  assumes "icmp s" "Recvfrom w (tick s) = RecvOK dgram peer"
    and "parse_frame w s (take blen dgram) peer = Some resp1" "r_seq resp1 = seq0"
  shows "Recv_loop w id0 seq0 ts blen resp s = Some (Returns ((resp1, None), step s))"
  using assms by (subst Recv_loop.simps) (simp add: Let_def)

lemma Recv_loop_skip:
  assumes "icmp s" "Recvfrom w (tick s) = RecvOK dgram peer"
    and "parse_frame w s (take blen dgram) peer = Some resp1" "r_seq resp1 \<noteq> seq0"
    and "time_ns w (tick s + 1) - ts < wait_window w s"
  shows "Recv_loop w id0 seq0 ts blen resp s
         = Recv_loop w id0 seq0 ts (length (take blen dgram)) resp1 (step (step s))"
  using assms by (subst Recv_loop.simps) (auto simp add: Let_def)

text \<open>
  C2, as amended. In ICMP mode, \<^verbatim>\<open>Recv\<close> returns a received frame without error only
  if the sequence number parsed from it equals the \<^verbatim>\<open>seq\<close> of the outstanding probe;
  the ICMP type and the identifier are not looked at. In the loop, a parsed frame with
  this sequence number is returned at once, and a frame with another one is skipped
  while the wait window is open. (The parser is a parameter: for a time-exceeded or
  unreachable frame it is the parser that takes the sequence number from the embedded
  probe.)
\<close>

theorem Recv_icmp_matches_seq_only:
  assumes "icmp s"
  shows "(Recv w s id0 seq0 = Some (Returns ((resp, None), s1)) \<longrightarrow> r_seq resp = seq0)
       \<and> (Recvfrom w (tick s) = RecvOK dgram peer
            \<and> parse_frame w s (take blen dgram) peer = Some resp1 \<longrightarrow>
            (r_seq resp1 = seq0 \<longrightarrow>
               Recv_loop w id0 seq0 ts blen resp0 s = Some (Returns ((resp1, None), step s)))
          \<and> (r_seq resp1 \<noteq> seq0 \<and> time_ns w (tick s + 1) - ts < wait_window w s \<longrightarrow>
               Recv_loop w id0 seq0 ts blen resp0 s
               = Recv_loop w id0 seq0 ts (length (take blen dgram)) resp1 (step (step s))))"
proof -
  have "Recv w s id0 seq0 = Some (Returns ((resp, None), s1)) \<longrightarrow> r_seq resp = seq0"
    using Recv_loop_icmp_seq [of w id0 seq0 "time_ns w (tick s)" 512 ICMPResp0 "step s"] assms
    by (auto simp: Recv_def)
  then show ?thesis
    using Recv_loop_accept [OF assms] Recv_loop_skip [OF assms] by blast
qed

theorem Recv_icmp_matches_seq_only_witness:
  "icmp (step (start tracer0))
   \<and> Recvfrom echo_world (tick (step (start tracer0)))
       = RecvOK [0, 7, 1, 0, 192, 0, 2, 1, 10, 0, 0, 1] []
   \<and> parse_frame echo_world (step (start tracer0))
         (take 512 [0, 7, 1, 0, 192, 0, 2, 1, 10, 0, 0, 1]) [] = Some echo_resp
   \<and> r_seq echo_resp = 1
   \<and> Recv_loop echo_world 38841 1 1000000000 512 ICMPResp0 (step (start tracer0))
       = Some (Returns ((echo_resp, None), step (step (start tracer0))))
   \<and> r_seq echo_resp \<noteq> 2
   \<and> time_ns echo_world (tick (step (start tracer0)) + 1) - 1000000000
       < wait_window echo_world (step (start tracer0))
   \<and> Recv_loop echo_world 38842 2 1000000000 512 ICMPResp0 (step (start tracer0))
       = Recv_loop echo_world 38842 2 1000000000
           (length (take 512 [0 :: byte, 7, 1, 0, 192, 0, 2, 1, 10, 0, 0, 1])) echo_resp
           (step (step (step (start tracer0))))"
proof -
  let ?s = "step (start tracer0)"
  have i: "icmp ?s"
    by (simp add: start_def tracer0_def Trace.extend_def)
  have r: "Recvfrom echo_world (tick ?s) = RecvOK [0, 7, 1, 0, 192, 0, 2, 1, 10, 0, 0, 1] []"
    by (simp add: echo_world_def quiet_def)
  have p: "parse_frame echo_world ?s (take 512 [0, 7, 1, 0, 192, 0, 2, 1, 10, 0, 0, 1]) []
           = Some echo_resp"
    by (simp add: parse_frame_def echo_world_def quiet_def toy_parser_def echo_resp_def
          start_def tracer0_def Trace.extend_def step_def To4_def)
  have q1: "r_seq echo_resp = 1" and q2: "r_seq echo_resp \<noteq> 2"
    by (simp_all add: echo_resp_def)
  have t: "time_ns echo_world (tick ?s + 1) - 1000000000 < wait_window echo_world ?s"
    by (simp add: echo_world_def quiet_def wait_window_def start_def tracer0_def
          Trace.extend_def step_def)
  from Recv_icmp_matches_seq_only [where s = "?s" and w = echo_world
      and dgram = "[0, 7, 1, 0, 192, 0, 2, 1, 10, 0, 0, 1]" and peer = "[]" and blen = 512
      and ?resp1.0 = echo_resp and ?id0.0 = 38841 and ?seq0.0 = 1 and ts = 1000000000
      and ?resp0.0 = ICMPResp0, OF i] r p q1
  have a: "Recv_loop echo_world 38841 1 1000000000 512 ICMPResp0 ?s
           = Some (Returns ((echo_resp, None), step ?s))" by blast
  from Recv_icmp_matches_seq_only [where s = "?s" and w = echo_world
      and dgram = "[0, 7, 1, 0, 192, 0, 2, 1, 10, 0, 0, 1]" and peer = "[]" and blen = 512
      and ?resp1.0 = echo_resp and ?id0.0 = 38842 and ?seq0.0 = 2 and ts = 1000000000
      and ?resp0.0 = ICMPResp0, OF i] r p q2 t
  have b: "Recv_loop echo_world 38842 2 1000000000 512 ICMPResp0 ?s
           = Recv_loop echo_world 38842 2 1000000000
               (length (take 512 [0 :: byte, 7, 1, 0, 192, 0, 2, 1, 10, 0, 0, 1])) echo_resp
               (step (step ?s))" by blast
  show ?thesis using i r p q1 q2 t a b by blast
qed

text \<open>
  C2 as stated fails: in ICMP mode an echo reply with the sequence number of the probe is
  accepted although its identifier, 7, is neither the \<^verbatim>\<open>id\<close> given to \<^verbatim>\<open>Recv\<close> (38841)
  nor the identifier of the echo request (the process id, 4242).
\<close>

theorem Recv_icmp_echo_reply_counterexample:
  "icmp (start tracer0)
   \<and> result_of (Recv echo_world (start tracer0) 38841 1)
       = Some (Returns (\<lparr>r_typ = 0, r_id = 7, r_seq = 1, r_src = [192, 0, 2, 1],
                          r_ip = \<lparr>ip_dst = [10, 0, 0, 1], ip_id = 0\<rparr>\<rparr>, None))
   \<and> IPv4ICMPTypeEchoReply = 0
   \<and> Getpid echo_world AND 0xffff = 4242"
  by (simp add: result_of_def Recv_def Recv_loop.simps echo_world_def quiet_def start_def tracer0_def
        Trace.extend_def step_def wait_window_def parse_frame_def toy_parser_def To4_def Let_def
        IPv4ICMPTypeEchoReply_def)

section \<open>A probe that gets no reply\<close>

text \<open>
  C3. When the probe is sent and the receive fails (a timeout, no matching reply, any
  error of \<^verbatim>\<open>Recv\<close>), \<^verbatim>\<open>NextHop\<close> returns the result with empty \<^verbatim>\<open>ip\<close>, zero
  \<^verbatim>\<open>elapsed\<close>, \<^verbatim>\<open>last\<close> false and no \<^verbatim>\<open>err\<close>: neither test that ends a scan holds of
  it. For such a result \<^verbatim>\<open>elapsed\<close> is zero and \<^verbatim>\<open>ip\<close> is empty, so the one holds
  exactly when the other does.
\<close>

theorem NextHop_receive_failure:
  assumes "Send w (step (SetTTL s hop0)) 33434 = Returns ((id0, seq0, None), s3)"
    and "Recv w s3 id0 seq0 = Some (Returns ((resp, Some e), s4))"
  shows "\<exists>r. NextHop w s hop0 = Some (Returns (r, s4))
           \<and> r = \<lparr>h_num = hop0, h_hop = [], h_ip = [], h_elapsed = f64_zero, h_last = False,
                   h_err = None, h_whois = Whois0\<rparr>
           \<and> h_ip r = [] \<and> h_elapsed r = f64_zero \<and> \<not> h_last r \<and> h_err r = None
           \<and> (f64_is_zero (h_elapsed r) \<longleftrightarrow> h_ip r = [])"
  using assms by (simp add: NextHop_def Let_def f64_zero_def)

theorem NextHop_receive_failure_witness:
  "Send quiet (step (SetTTL (start tracer0) 1)) 33434
     = Returns ((38841, 1, None), snd (returned (Send quiet (step (SetTTL (start tracer0) 1)) 33434)))
   \<and> result_of (Recv quiet (snd (returned (Send quiet (step (SetTTL (start tracer0) 1)) 33434))) 38841 1)
       = Some (Returns (ICMPResp0, Some EAGAIN))
   \<and> result_of (NextHop quiet (start tracer0) 1)
       = Some (Returns \<lparr>h_num = 1, h_hop = [], h_ip = [], h_elapsed = f64_zero, h_last = False,
                         h_err = None, h_whois = Whois0\<rparr>)"
proof -
  let ?s3 = "snd (returned (Send quiet (step (SetTTL (start tracer0) 1)) 33434))"
  have snd_eq: "Send quiet (step (SetTTL (start tracer0) 1)) 33434 = Returns ((38841, 1, None), ?s3)"
    by (simp add: Send_def Sendv4_def Sendv4_probe_def quiet_def start_def tracer0_def
          Trace.extend_def step_def SetTTL_def To4_def Let_def)
  have recv_eq: "Recv quiet ?s3 38841 1
                 = Some (Returns ((ICMPResp0, Some EAGAIN), snd (returned (the (Recv quiet ?s3 38841 1)))))"
    by (simp add: Send_def Sendv4_def Sendv4_probe_def quiet_def start_def tracer0_def
          Trace.extend_def step_def SetTTL_def To4_def Let_def Recv_def Recv_loop.simps
          wait_window_def EAGAIN_def)
  from NextHop_receive_failure [OF snd_eq recv_eq]
  have "result_of (NextHop quiet (start tracer0) 1)
       = Some (Returns \<lparr>h_num = 1, h_hop = [], h_ip = [], h_elapsed = f64_zero, h_last = False,
                         h_err = None, h_whois = Whois0\<rparr>)"
    by (auto simp: result_of_def)
  moreover have "result_of (Recv quiet ?s3 38841 1) = Some (Returns (ICMPResp0, Some EAGAIN))"
    by (subst recv_eq) (simp add: result_of_def)
  ultimately show ?thesis using snd_eq by blast
qed

section \<open>The single-pass scan\<close>

lemma valid_start: "valid memory0 nil_slice"
  by (simp add: valid_def memory0_def nil_slice_def)

lemma entries_start: "entries memory0 = {}"
  by (simp add: entries_def memory0_def)

lemma length_contents: "valid m r \<Longrightarrow> length (contents m r) = len r"
  by (simp add: valid_def contents_def)

lemma nth_entries: "i < length m \<Longrightarrow> set (m ! i) \<subseteq> entries m"
  unfolding entries_def using nth_mem [of i m] by blast

lemma contents_entries: "arr r < length m \<Longrightarrow> set (contents m r) \<subseteq> entries m"
  using nth_entries [of "arr r" m] by (auto simp: contents_def dest: in_set_takeD)

lemma entries_update: "entries (m[i := a]) \<subseteq> entries m \<union> set a"
proof
  fix x assume "x \<in> entries (m[i := a])"
  then obtain b where b: "b \<in> set (m[i := a])" "x \<in> set b" by (auto simp: entries_def)
  from b(1) have "b = a \<or> b \<in> set m" using set_update_subset_insert [of m i a] by auto
  with b(2) show "x \<in> entries m \<union> set a" by (auto simp: entries_def)
qed

lemma entries_snoc: "entries (m @ [a]) = entries m \<union> set a"
  by (auto simp: entries_def)

lemma append1_contents:
  assumes v: "valid m r" and ap: "append1 w m r x = (m1, r1)"
  shows "valid m1 r1 \<and> contents m1 r1 = contents m r @ [x] \<and> length m \<le> length m1
         \<and> entries m1 \<subseteq> entries m \<union> {x, HopResp0}"
proof (cases "len r < cap r")
  case True
  with ap have m1: "m1 = m[arr r := (m ! arr r)[len r := x]]" and r1: "r1 = r\<lparr>len := len r + 1\<rparr>"
    by (auto simp: append1_def)
  have a: "arr r < length m" and l: "length (m ! arr r) = cap r" using v by (auto simp: valid_def)
  have "valid m1 r1" using v True by (simp add: valid_def m1 r1)
  moreover have "contents m1 r1 = contents m r @ [x]"
    using a l True by (simp add: contents_def m1 r1 take_Suc_conv_app_nth)
  moreover have "entries m1 \<subseteq> entries m \<union> {x, HopResp0}"
  proof -
    have "set ((m ! arr r)[len r := x]) \<subseteq> insert x (set (m ! arr r))"
      by (rule set_update_subset_insert)
    moreover have "set (m ! arr r) \<subseteq> entries m" using a by (rule nth_entries)
    ultimately show ?thesis using entries_update [of m "arr r" "(m ! arr r)[len r := x]"]
      unfolding m1 by blast
  qed
  ultimately show ?thesis by (simp add: m1)
next
  case False
  define c where "c = max (len r + 1) (growslice w (cap r))"
  define a where "a = contents m r @ [x] @ replicate (c - (len r + 1)) HopResp0"
  from ap False have m1: "m1 = m @ [a]" and r1: "r1 = \<lparr>arr = length m, len = len r + 1, cap = c\<rparr>"
    by (auto simp: append1_def Let_def a_def c_def)
  have lc: "length (contents m r) = len r" using v by (rule length_contents)
  have c: "len r + 1 \<le> c" by (simp add: c_def)
  have "valid m1 r1" using c lc by (simp add: valid_def m1 r1 a_def)
  moreover have "contents m1 r1 = contents m r @ [x]"
  proof -
    have "contents m1 r1 = take (len r + 1) a" by (simp add: contents_def m1 r1)
    also have "\<dots> = contents m r @ [x]" using lc by (simp add: a_def)
    finally show ?thesis .
  qed
  moreover have "entries m1 \<subseteq> entries m \<union> {x, HopResp0}"
  proof -
    have "arr r < length m" using v by (simp add: valid_def)
    then have "set (contents m r) \<subseteq> entries m" by (rule contents_entries)
    then show ?thesis by (auto simp: m1 entries_snoc a_def)
  qed
  ultimately show ?thesis by (simp add: m1)
qed

lemma NextHop_num:
  "NextHop w s h = Some (Returns (r, s1)) \<Longrightarrow> h_num r = h"
  by (auto simp: NextHop_def Let_def split: exec.splits option.splits if_splits prod.splits)

lemma Run_retry_batch:
  "Run_retry w h retry n m r s = Some (Returns ((m1, r1), s1)) \<Longrightarrow> valid m r \<Longrightarrow>
   valid m1 r1 \<and> length m \<le> length m1
   \<and> (\<exists>new. contents m1 r1 = contents m r @ new \<and> list_all (\<lambda>R. h_num R = h) new
        \<and> (list_all (\<lambda>R. h_err R = None) new \<and> length new = nat (retry - n)
           \<or> new \<noteq> [] \<and> h_err (last new) \<noteq> None \<and> list_all (\<lambda>R. h_err R = None) (butlast new)
             \<and> length new \<le> nat (retry - n))
        \<and> entries m1 \<subseteq> entries m \<union> set new \<union> {HopResp0})"
proof (induction w h retry n m r s rule: Run_retry.induct)
  case (1 w h retry n m r s)
  show ?case
  proof (cases "n < retry")
    case False
    with "1.prems" have "m1 = m" "r1 = r" by (simp_all add: Run_retry.simps)
    with False "1.prems"(2) show ?thesis by auto
  next
    case True
    with "1.prems" obtain hop0 s0 where nh: "NextHop w s h = Some (Returns (hop0, s0))"
      by (auto simp: Run_retry.simps split: option.splits exec.splits)
    have num: "h_num hop0 = h" using nh by (rule NextHop_num)
    obtain m0 r0 where ap: "append1 w m r hop0 = (m0, r0)" by (cases "append1 w m r hop0")
    from append1_contents [OF "1.prems"(2) ap]
    have v0: "valid m0 r0" and c0: "contents m0 r0 = contents m r @ [hop0]"
      and l0: "length m \<le> length m0" and e0: "entries m0 \<subseteq> entries m \<union> {hop0, HopResp0}"
      by auto
    show ?thesis
    proof (cases "h_err hop0 = None")
      case False
      with "1.prems" True nh ap have "m1 = m0" "r1 = r0" by (auto simp: Run_retry.simps)
      with False num True v0 c0 l0 e0 show ?thesis
        by (intro conjI exI [of _ "[hop0]"]) auto
    next
      case e: True
      with "1.prems" True nh ap
      have rec: "Run_retry w h retry (n + 1) m0 r0 s0 = Some (Returns ((m1, r1), s1))"
        by (simp add: Run_retry.simps [of w h retry n])
      from "1.IH" [OF True nh refl refl _ ap [symmetric] refl rec v0] e
      obtain new where v1: "valid m1 r1" and l1: "length m0 \<le> length m1"
        and new: "contents m1 r1 = contents m0 r0 @ new" "list_all (\<lambda>R. h_num R = h) new"
        "list_all (\<lambda>R. h_err R = None) new \<and> length new = nat (retry - (n + 1))
         \<or> new \<noteq> [] \<and> h_err (last new) \<noteq> None \<and> list_all (\<lambda>R. h_err R = None) (butlast new)
           \<and> length new \<le> nat (retry - (n + 1))"
        and e1: "entries m1 \<subseteq> entries m0 \<union> set new \<union> {HopResp0}"
        by auto
      have len: "Suc (nat (retry - (n + 1))) = nat (retry - n)" using True by simp
      have e2: "entries m1 \<subseteq> entries m \<union> set (hop0 # new) \<union> {HopResp0}"
        using e0 e1 by auto
      show ?thesis
        apply (intro conjI exI [of _ "hop0 # new"])
        using new num e len v1 l0 l1 c0 e2 by (auto simp: butlast_append)
    qed
  qed
qed

lemma addWhois_map:
  "addWhois w s R = Returns (R1, s1) \<Longrightarrow> \<exists>f. R1 = map (\<lambda>r. r\<lparr>h_whois := f r\<rparr>) R"
  by (auto simp: addWhois_def Let_def split: exec.splits)

lemma addWhois_slice_contents:
  assumes v: "valid m r" and aw: "addWhois_slice w s m r = Returns (m2, s2)"
  shows "valid m2 r \<and> length m2 = length m
         \<and> (\<exists>f. contents m2 r = map (\<lambda>x. x\<lparr>h_whois := f x\<rparr>) (contents m r))
         \<and> entries m2 \<subseteq> entries m \<union> set (contents m2 r)"
proof -
  from aw obtain R where R: "addWhois w s (contents m r) = Returns (R, s2)"
    and m2: "m2 = m[arr r := R @ drop (len r) (m ! arr r)]"
    by (auto simp: addWhois_slice_def split: exec.splits)
  from addWhois_map [OF R] obtain f where f: "R = map (\<lambda>x. x\<lparr>h_whois := f x\<rparr>) (contents m r)"
    by blast
  have lR: "length R = len r" using length_contents [OF v] by (simp add: f)
  have a: "arr r < length m" and l: "length (m ! arr r) = cap r" and le: "len r \<le> cap r"
    using v by (auto simp: valid_def)
  have c2: "contents m2 r = R" using a lR by (simp add: contents_def m2)
  have "valid m2 r" using v lR by (simp add: valid_def m2)
  moreover have "entries m2 \<subseteq> entries m \<union> set (contents m2 r)"
  proof -
    have "set (drop (len r) (m ! arr r)) \<subseteq> entries m"
      using nth_entries [OF a] by (auto dest: in_set_dropD)
    with entries_update [of m "arr r" "R @ drop (len r) (m ! arr r)"]
    have "entries m2 \<subseteq> entries m \<union> set R" unfolding m2 by auto
    then show ?thesis by (simp add: c2)
  qed
  ultimately show ?thesis using c2 f by (auto simp: m2)
qed


lemma batch_ok_whois:
  "batch_ok retry h (map (\<lambda>r. r\<lparr>h_whois := f r\<rparr>) R) = batch_ok retry h R"
  by (cases "R = []") (simp_all add: batch_ok_def list_all_iff last_map map_butlast [symmetric])

lemma ends_scan_whois:
  "list_ex ends_scan (map (\<lambda>r. r\<lparr>h_whois := f r\<rparr>) R) = list_ex ends_scan R"
  by (simp add: list_ex_iff ends_scan_def)

lemma HopResp0_sel [simp]: "h_num HopResp0 = 0" "\<not> h_last HopResp0"
  by (simp_all add: HopResp0_def)

lemma Run_hop_memory:
  assumes rr: "Run_retry w h retry 0 m r s = Some (Returns ((m1, r1), s1))"
    and aw: "(if ripe s1 then addWhois_slice w s1 m1 r1 else Returns (m1, s1)) = Returns (m2, s2)"
    and v: "valid m r" and l: "len r = 0"
  shows "valid m2 r1" and "length m \<le> length m2" and "batch_ok retry h (contents m2 r1)"
    and "0 < h \<Longrightarrow> \<forall>x \<in> entries m. h_num x < h \<and> \<not> h_last x \<Longrightarrow>
         \<forall>x \<in> entries m2. h_num x \<le> h
            \<and> (h_last x \<longrightarrow> h_num x = h \<and> (\<exists>R \<in> set (contents m2 r1). h_last R))"
proof -
  have c0: "contents m r = []" using l by (simp add: contents_def)
  from Run_retry_batch [OF rr v] c0
  obtain new where v1: "valid m1 r1" and l1: "length m \<le> length m1"
    and new: "contents m1 r1 = new" "list_all (\<lambda>R. h_num R = h) new"
      "list_all (\<lambda>R. h_err R = None) new \<and> length new = nat (retry - 0)
       \<or> new \<noteq> [] \<and> h_err (last new) \<noteq> None \<and> list_all (\<lambda>R. h_err R = None) (butlast new)
         \<and> length new \<le> nat (retry - 0)"
    and e1: "entries m1 \<subseteq> entries m \<union> set new \<union> {HopResp0}"
    by auto
  have ok1: "batch_ok retry h new" using new by (auto simp: batch_ok_def)
  have "valid m2 r1 \<and> length m2 = length m1
         \<and> (\<exists>f. contents m2 r1 = map (\<lambda>x. x\<lparr>h_whois := f x\<rparr>) (contents m1 r1))
         \<and> entries m2 \<subseteq> entries m1 \<union> set (contents m2 r1)"
  proof (cases "ripe s1")
    case True
    with aw have "addWhois_slice w s1 m1 r1 = Returns (m2, s2)" by simp
    from addWhois_slice_contents [OF v1 this] show ?thesis .
  next
    case False
    with aw have m2: "m2 = m1" by simp
    have "contents m1 r1 = map (\<lambda>x. x\<lparr>h_whois := h_whois x\<rparr>) (contents m1 r1)" by simp
    then have "\<exists>f. contents m1 r1 = map (\<lambda>x. x\<lparr>h_whois := f x\<rparr>) (contents m1 r1)"
      by (rule exI [of _ h_whois])
    with v1 show ?thesis by (simp add: m2)
  qed
  then have v2: "valid m2 r1" and l2: "length m2 = length m1"
    and ex: "\<exists>f. contents m2 r1 = map (\<lambda>x. x\<lparr>h_whois := f x\<rparr>) (contents m1 r1)"
    and e2: "entries m2 \<subseteq> entries m1 \<union> set (contents m2 r1)"
    by blast+
  from ex obtain f where c2: "contents m2 r1 = map (\<lambda>x. x\<lparr>h_whois := f x\<rparr>) new"
    unfolding new(1) by blast
  show "valid m2 r1" by (rule v2)
  show "length m \<le> length m2" using l1 l2 by simp
  show "batch_ok retry h (contents m2 r1)" using ok1 by (simp add: c2 batch_ok_whois)
  show "\<forall>x \<in> entries m2. h_num x \<le> h
            \<and> (h_last x \<longrightarrow> h_num x = h \<and> (\<exists>R \<in> set (contents m2 r1). h_last R))"
    if h: "0 < h" and old: "\<forall>x \<in> entries m. h_num x < h \<and> \<not> h_last x"
  proof
    fix x assume "x \<in> entries m2"
    with e1 e2 consider "x \<in> entries m" | "x = HopResp0" | "x \<in> set new"
      | "x \<in> set (contents m2 r1)" by blast
    then show "h_num x \<le> h
            \<and> (h_last x \<longrightarrow> h_num x = h \<and> (\<exists>R \<in> set (contents m2 r1). h_last R))"
    proof cases
      case 1
      with old show ?thesis by fastforce
    next
      case 2
      with h show ?thesis by simp
    next
      case 3
      then have "h_num x = h" using new(2) by (simp add: list_all_iff)
      moreover have "h_last x \<longrightarrow> (\<exists>R \<in> set (contents m2 r1). h_last R)"
      proof
        assume "h_last x"
        then have "h_last (x\<lparr>h_whois := f x\<rparr>)" by simp
        moreover have "x\<lparr>h_whois := f x\<rparr> \<in> set (contents m2 r1)" using 3 by (simp add: c2)
        ultimately show "\<exists>R \<in> set (contents m2 r1). h_last R" by blast
      qed
      ultimately show ?thesis by simp
    next
      case 4
      then obtain y where "y \<in> set new" "x = y\<lparr>h_whois := f y\<rparr>" by (auto simp: c2)
      then have "h_num x = h" using new(2) by (simp add: list_all_iff)
      with 4 show ?thesis by auto
    qed
  qed
qed

lemma Run_loop_sendings:
  "Run_loop w retry h m r s = (xs, e) \<Longrightarrow> valid m r \<Longrightarrow> len r = 0 \<Longrightarrow>
   batches_ok retry h (as_sent xs) \<and> int (length xs) \<le> max 0 (maxTTL s - h + 1)
   \<and> (0 < h \<longrightarrow> (\<forall>x \<in> entries m. h_num x < h \<and> \<not> h_last x) \<longrightarrow> sends_ok h (length m) xs)"
proof (induction w retry h m r s arbitrary: xs e rule: Run_loop.induct)
  case (1 w retry h m r s)
  note v = "1.prems"(2) and l = "1.prems"(3)
  show ?case
  proof (cases "h \<le> maxTTL s")
    case False
    with "1.prems" show ?thesis by (simp add: Run_loop.simps as_sent_def)
  next
    case True
    show ?thesis
    proof (cases "Run_retry w h retry 0 m r s")
      case None
      with "1.prems" True show ?thesis by (simp add: Run_loop.simps as_sent_def)
    next
      case (Some x)
      show ?thesis
      proof (cases x)
        case Panics
        with "1.prems" True Some show ?thesis by (simp add: Run_loop.simps as_sent_def)
      next
        case (Returns p)
        obtain m1 r1 s1 where p: "p = ((m1, r1), s1)" by (cases p) auto
        have rr: "Run_retry w h retry 0 m r s = Some (Returns ((m1, r1), s1))"
          using Some Returns p by simp
        have c1: "config s1 = config s" using rr by (rule Run_retry_config)
        show ?thesis
        proof (cases "if ripe s1 then addWhois_slice w s1 m1 r1 else Returns (m1, s1)")
          case Panics
          with "1.prems" True rr show ?thesis by (simp add: Run_loop.simps as_sent_def)
        next
          case (Returns q)
          obtain m2 s2 where q: "q = (m2, s2)" by (cases q)
          have aw: "(if ripe s1 then addWhois_slice w s1 m1 r1 else Returns (m1, s1))
                    = Returns (m2, s2)"
            using Returns q by simp
          note hop = Run_hop_memory [OF rr aw v l]
          have c2: "config s2 = config s1"
            using aw by (auto split: if_splits dest: addWhois_slice_config)
          have mx: "maxTTL (step s2) = maxTTL s"
            using c1 c2 by (auto dest!: config_maxTTL)
          define y where "y = \<lparr>batch = r1, heap = m2\<rparr>"
          have y: "contents (heap y) (batch y) = contents m2 r1" "heap y = m2" "batch y = r1"
            by (simp_all add: y_def)
          have a2: "arr r1 < length m2" using hop(1) by (simp add: valid_def)
          show ?thesis
          proof (cases "chan_closed w (tick s2)")
            case True
            with "1.prems" \<open>h \<le> maxTTL s\<close> rr aw show ?thesis
              by (simp add: Run_loop.simps as_sent_def)
          next
            case nc: False
            show ?thesis
            proof (cases "list_ex ends_scan (contents m2 r1)")
              case True
              then have "\<exists>R\<in>set (contents m2 r1). h_last R \<or> h_err R \<noteq> None"
                by (simp add: list_ex_iff ends_scan_def)
              with "1.prems"(1) \<open>h \<le> maxTTL s\<close> rr aw nc have xs: "xs = [y]"
                by (simp add: Run_loop.simps [of w retry h m r s] y_def)
              have "sends_ok h (length m) xs"
                if "0 < h" "\<forall>x \<in> entries m. h_num x < h \<and> \<not> h_last x"
                using hop(4) [OF that] hop(2) a2 by (simp add: xs y)
              with hop(3) \<open>h \<le> maxTTL s\<close> show ?thesis by (simp add: xs as_sent_def y)
            next
              case False
              then have ne: "\<not> (\<exists>R\<in>set (contents m2 r1). h_last R \<or> h_err R \<noteq> None)"
                by (simp add: list_ex_iff ends_scan_def)
              obtain xs' e' where rec:
                "Run_loop w retry (h + 1) m2 (r1\<lparr>len := 0\<rparr>) (step s2) = (xs', e')"
                by (cases "Run_loop w retry (h + 1) m2 (r1\<lparr>len := 0\<rparr>) (step s2)")
              with "1.prems"(1) \<open>h \<le> maxTTL s\<close> rr aw nc ne have xs: "xs = y # xs'"
                by (simp add: Run_loop.simps [of w retry h m r s] y_def)
              have v3: "valid m2 (r1\<lparr>len := 0\<rparr>)" using hop(1) by (simp add: valid_def)
              from "1.IH" [OF \<open>h \<le> maxTTL s\<close> rr refl refl refl aw refl nc ne rec v3]
              have ih: "batches_ok retry (h + 1) (as_sent xs')"
                "int (length xs') \<le> max 0 (maxTTL (step s2) - (h + 1) + 1)"
                "0 < h + 1 \<longrightarrow> (\<forall>x \<in> entries m2. h_num x < h + 1 \<and> \<not> h_last x)
                   \<longrightarrow> sends_ok (h + 1) (length m2) xs'"
                by auto
              have "sends_ok h (length m) xs"
                if h: "0 < h" and old: "\<forall>x \<in> entries m. h_num x < h \<and> \<not> h_last x"
              proof -
                note E = hop(4) [OF h old]
                have "\<forall>x \<in> entries m2. h_num x < h + 1 \<and> \<not> h_last x"
                proof
                  fix x assume x: "x \<in> entries m2"
                  with E have "h_num x \<le> h" by blast
                  moreover have "\<not> h_last x"
                  proof
                    assume "h_last x"
                    with E x have "\<exists>R \<in> set (contents m2 r1). h_last R" by blast
                    with ne show False by blast
                  qed
                  ultimately show "h_num x < h + 1 \<and> \<not> h_last x" by simp
                qed
                with ih(3) h have "sends_ok (h + 1) (length m2) xs'" by simp
                moreover have "\<forall>x \<in> entries m2. h_num x \<le> h \<and> (h_last x \<longrightarrow> h_num x = h \<and> xs' = [])"
                  using E \<open>\<forall>x \<in> entries m2. h_num x < h + 1 \<and> \<not> h_last x\<close> by blast
                ultimately show ?thesis using hop(2) a2 by (simp add: xs y)
              qed
              moreover have "batches_ok retry h (as_sent xs)"
              proof -
                have "as_sent xs = contents m2 r1 # as_sent xs'" by (simp add: xs as_sent_def y)
                with ih(1) hop(3) False show ?thesis by simp
              qed
              moreover have "int (length xs) \<le> max 0 (maxTTL s - h + 1)"
                using ih(2) mx \<open>h \<le> maxTTL s\<close> by (simp add: xs)
              ultimately show ?thesis by blast
            qed
          qed
        qed
      qed
    qed
  qed
qed


lemma sends_ok_nth:
  "sends_ok h n xs \<Longrightarrow> j < length xs \<Longrightarrow>
   n \<le> length (heap (xs ! j))
   \<and> (\<forall>x \<in> entries (heap (xs ! j)).
         h_num x \<le> h + int j \<and> (h_last x \<longrightarrow> h_num x = h + int j \<and> Suc j = length xs))"
proof (induction xs arbitrary: h n j)
  case Nil
  then show ?case by simp
next
  case (Cons y ys)
  show ?case
  proof (cases j)
    case 0
    with Cons.prems show ?thesis by auto
  next
    case (Suc j')
    with Cons.prems have "sends_ok (h + 1) (length (heap y)) ys" "j' < length ys"
      and n: "n \<le> length (heap y)" by auto
    from Cons.IH [OF this(1,2)] n Suc show ?thesis by (auto simp: add.assoc)
  qed
qed

lemma sends_ok_arr:
  "sends_ok h n xs \<Longrightarrow> k \<le> j \<Longrightarrow> j < length xs \<Longrightarrow>
   arr (batch (xs ! k)) < length (heap (xs ! j))"
proof (induction xs arbitrary: h n k j)
  case Nil
  then show ?case by simp
next
  case (Cons y ys)
  from Cons.prems have rest: "sends_ok (h + 1) (length (heap y)) ys"
    and a: "arr (batch y) < length (heap y)" by auto
  show ?case
  proof (cases k)
    case 0
    show ?thesis
    proof (cases j)
      case 0
      with \<open>k = 0\<close> a show ?thesis by simp
    next
      case (Suc j')
      with Cons.prems have "j' < length ys" by simp
      from sends_ok_nth [OF rest this] a Suc \<open>k = 0\<close> show ?thesis by simp
    qed
  next
    case (Suc k')
    with Cons.prems obtain j' where j: "j = Suc j'" "k' \<le> j'" "j' < length ys"
      by (cases j) auto
    from Cons.IH [OF rest j(2,3)] Suc j(1) show ?thesis by simp
  qed
qed

lemma reads_bound:
  assumes ok: "sends_ok h n xs"
    and at: "\<forall>k < length xs. k \<le> at k \<and> at k < length xs"
    and x: "x \<in> set (concat (reads xs at))"
  shows "h_num x \<le> h + int (length xs) - 1 \<and> (h_last x \<longrightarrow> h_num x = h + int (length xs) - 1)"
proof -
  from x obtain k where k: "k < length xs"
    and xk: "x \<in> set (contents (heap (xs ! at k)) (batch (xs ! k)))"
    by (auto simp: reads_def)
  from at k have j: "k \<le> at k" "at k < length xs" by auto
  have "arr (batch (xs ! k)) < length (heap (xs ! at k))"
    using ok j by (rule sends_ok_arr)
  from contents_entries [OF this] xk have "x \<in> entries (heap (xs ! at k))" by blast
  with sends_ok_nth [OF ok j(2)]
  have "h_num x \<le> h + int (at k)"
    and "h_last x \<longrightarrow> h_num x = h + int (at k) \<and> Suc (at k) = length xs" by blast+
  with j(2) show ?thesis by auto
qed

lemma as_sent_reads: "as_sent xs = reads xs (\<lambda>k. k)"
  by (rule nth_equalityI) (simp_all add: as_sent_def reads_def)

lemma Bind_config: "Bind w s = (e, s1) \<Longrightarrow> config s1 = config s"
  by (auto simp: Bind_def Let_def split: option.splits)

lemma Run_sendings:
  assumes "Run w s retry = (err, xs, e)"
  shows "batches_ok retry 1 (as_sent xs)" and "int (length xs) \<le> max 0 (maxTTL s)"
    and "sends_ok 1 1 xs"
proof -
  have "batches_ok retry 1 (as_sent xs) \<and> int (length xs) \<le> max 0 (maxTTL s) \<and> sends_ok 1 1 xs"
  proof (cases "Bind w s")
    case (Pair be s1)
    show ?thesis
    proof (cases be)
      case (Some x)
      with assms Pair show ?thesis by (simp add: Run_def as_sent_def)
    next
      case None
      obtain xs' e' where rl: "Run_loop w retry 1 memory0 nil_slice s1 = (xs', e')"
        by (cases "Run_loop w retry 1 memory0 nil_slice s1")
      with assms Pair None have xs: "xs = xs'" by (simp add: Run_def)
      have mx: "maxTTL s1 = maxTTL s"
        using Pair by (auto dest!: Bind_config config_maxTTL)
      have l: "len nil_slice = 0" by (simp add: nil_slice_def)
      have n: "length memory0 = 1" by (simp add: memory0_def)
      from Run_loop_sendings [OF rl valid_start l] xs mx show ?thesis
        by (simp add: entries_start n)
    qed
  qed
  then show "batches_ok retry 1 (as_sent xs)" and "int (length xs) \<le> max 0 (maxTTL s)"
    and "sends_ok 1 1 xs" by blast+
qed

lemma Run_reads_settled:
  assumes run: "Run w s retry = (err, xs, e)"
    and at: "\<forall>k < length xs. k \<le> at k \<and> at k < length xs"
    and ij: "i < j" "j < length (concat (reads xs at))" "h_last (concat (reads xs at) ! i)"
  shows "h_num (concat (reads xs at) ! j) \<le> h_num (concat (reads xs at) ! i)"
proof -
  let ?l = "concat (reads xs at)"
  note ok = Run_sendings(3) [OF run]
  have "i < length ?l" using ij by simp
  then have mi: "?l ! i \<in> set ?l" by (rule nth_mem)
  have mj: "?l ! j \<in> set ?l" using ij(2) by (rule nth_mem)
  from reads_bound [OF ok at mi] reads_bound [OF ok at mj] ij(3)
  show ?thesis by simp
qed

lemma batches_ok_nth:
  "batches_ok retry h bs \<Longrightarrow> k < length bs \<Longrightarrow>
   batch_ok retry (h + int k) (bs ! k) \<and> (list_ex ends_scan (bs ! k) \<longrightarrow> Suc k = length bs)"
proof (induction bs arbitrary: h k)
  case Nil
  then show ?case by simp
next
  case (Cons b bs)
  show ?case
  proof (cases k)
    case 0
    with Cons.prems show ?thesis by auto
  next
    case (Suc j)
    with Cons.prems have "j < length bs" "batches_ok retry (h + 1) bs" by auto
    from Cons.IH [OF this(2) this(1)] Suc show ?thesis by (simp add: add.assoc)
  qed
qed

text \<open>
  What the loops of \<^verbatim>\<open>Run\<close> build: at most \<^verbatim>\<open>maxTTL\<close> batches are sent; as it is at
  the moment of its sending, the \<open>k\<close>-th batch (counted from 0) is the batch of hop
  \<open>k + 1\<close>, with \<open>retry\<close> results, or cut short at the first result with an error; and a
  batch that then holds a result with \<^verbatim>\<open>last\<close> set or with an error is the last one
  sent.
\<close>

lemma Run_batches_as_sent:
  assumes "Run w s retry = (err, xs, e)"
  shows "length xs \<le> nat (maxTTL s)
       \<and> (\<forall>k < length xs.
            batch_ok retry (int k + 1) (as_sent xs ! k)
            \<and> (list_ex ends_scan (as_sent xs ! k) \<longrightarrow> Suc k = length xs))"
proof -
  note ok = Run_sendings(1) [OF assms] and len = Run_sendings(2) [OF assms]
  have l: "length (as_sent xs) = length xs" by (simp add: as_sent_def)
  from len have "length xs \<le> nat (maxTTL s)" by linarith
  moreover have "\<forall>k < length xs.
            batch_ok retry (int k + 1) (as_sent xs ! k)
            \<and> (list_ex ends_scan (as_sent xs ! k) \<longrightarrow> Suc k = length xs)"
    using batches_ok_nth [OF ok] by (simp add: add.commute l)
  ultimately show ?thesis by blast
qed

lemma Run_quiet_sent:
  "map (map h_num) (as_sent (fst (snd (Run quiet three_hops 1)))) = [[1], [2], [3]]"
  by code_simp

lemma Run_quiet_read:
  "map (map h_num) (reads (fst (snd (Run quiet three_hops 1))) (when_next_sent 3))
   = [[2], [3], [3]]"
  by code_simp

lemma Run_quiet_read_closed:
  "map (map h_num) (reads (fst (snd (Run quiet three_hops 1))) (when_closed 3)) = [[3], [3], [3]]"
  by code_simp

lemma Run_loss_sent:
  "map nums_lasts (as_sent (fst (snd (Run loss_world long_machine 1))))
   = [[(1, False)], [(2, True)]]"
  by code_simp

lemma Run_loss_read:
  "map nums_lasts (reads (fst (snd (Run loss_world long_machine 1))) (when_closed 2))
   = [[(2, True)], [(2, True)]]"
  by code_simp

text \<open>
  C1. The claim: in a single-pass scan every batch sent holds the results of its hop
  (\<open>retry\<close> of them, or fewer up to a result with an error), for the hops 1, 2, \<open>\<dots>\<close> in
  this order, and no batch follows one that holds a result with \<^verbatim>\<open>last\<close> set or with an
  error. The loops build the batches so (\<open>Run_batches_as_sent\<close>), but the code sends
  its one slice and goes on writing into the array of that slice, so a batch that the
  consumer has not read yet is overwritten by the results of the next hop. With three
  hops at most, one probe per hop and no reply, the batches are, by hop number, \<open>[1]\<close>,
  \<open>[2]\<close>, \<open>[3]\<close> when they are sent; a consumer that takes each batch from the channel
  when the producer is ready to send the next one finds \<open>[2]\<close>, \<open>[3]\<close>, \<open>[3]\<close>, and one
  that reads the batches after the channel is closed finds \<open>[3]\<close>, \<open>[3]\<close>, \<open>[3]\<close>. When
  the reply to the first probe is lost and hop 2 reaches the target, the first batch
  found holds the result of hop 2 with \<^verbatim>\<open>last\<close> set, and another batch follows it.
\<close>

theorem Run_delivers_overwritten_batches:
  "map (map h_num) (as_sent (fst (snd (Run quiet three_hops 1)))) = [[1], [2], [3]]
   \<and> map (map h_num) (reads (fst (snd (Run quiet three_hops 1))) (when_next_sent 3))
       = [[2], [3], [3]]
   \<and> map (map h_num) (reads (fst (snd (Run quiet three_hops 1))) (when_closed 3)) = [[3], [3], [3]]
   \<and> map nums_lasts (as_sent (fst (snd (Run loss_world long_machine 1))))
       = [[(1, False)], [(2, True)]]
   \<and> map nums_lasts (reads (fst (snd (Run loss_world long_machine 1))) (when_closed 2))
       = [[(2, True)], [(2, True)]]"
  using Run_quiet_sent Run_quiet_read Run_quiet_read_closed Run_loss_sent Run_loss_read
  by blast

section \<open>No later hop after the last one\<close>

lemma settled_nth:
  "settled rs \<Longrightarrow> i < j \<Longrightarrow> j < length rs \<Longrightarrow> h_last (rs ! i) \<Longrightarrow> h_num (rs ! j) \<le> h_num (rs ! i)"
proof (induction rs arbitrary: i j)
  case Nil
  then show ?case by simp
next
  case (Cons r rs)
  from Cons.prems obtain j' where j: "j = Suc j'" by (cases j) auto
  show ?case
  proof (cases i)
    case 0
    with Cons.prems j show ?thesis by (auto simp: list_all_length)
  next
    case (Suc i')
    with Cons.prems j Cons.IH [of i' j'] show ?thesis by auto
  qed
qed

lemma settled_by_first_nth:
  "settled_by_first rs \<Longrightarrow> i < j \<Longrightarrow> j < length rs \<Longrightarrow> h_last (rs ! i) \<Longrightarrow>
   \<forall>k < i. \<not> h_last (rs ! k) \<Longrightarrow> h_num (rs ! j) \<le> h_num (rs ! i)"
proof (induction rs arbitrary: i j)
  case Nil
  then show ?case by simp
next
  case (Cons r rs)
  from Cons.prems obtain j' where j: "j = Suc j'" by (cases j) auto
  show ?case
  proof (cases i)
    case 0
    with Cons.prems j show ?thesis by (auto simp: list_all_length)
  next
    case (Suc i')
    with Cons.prems have nl: "\<not> h_last r" by auto
    have "\<forall>k < i'. \<not> h_last (rs ! k)"
    proof (intro allI impI)
      fix k assume "k < i'"
      then have "Suc k < i" using Suc by simp
      with Cons.prems(5) show "\<not> h_last (rs ! k)" by fastforce
    qed
    with Cons.prems j Suc nl Cons.IH [of i' j'] show ?thesis by auto
  qed
qed

lemma settled_append:
  "settled (xs @ ys) \<longleftrightarrow>
     settled xs \<and> settled ys \<and> (\<forall>x \<in> set xs. h_last x \<longrightarrow> (\<forall>y \<in> set ys. h_num y \<le> h_num x))"
  by (induction xs) (auto simp: list_all_iff)

lemma settled_same_num:
  "list_all (\<lambda>R. h_num R = h) b \<Longrightarrow> settled b"
  by (induction b) (auto simp: list_all_iff)

lemma batches_ok_settled:
  "batches_ok retry h bs \<Longrightarrow> settled (concat bs)"
proof (induction bs arbitrary: h)
  case Nil
  then show ?case by simp
next
  case (Cons b bs)
  then have b: "list_all (\<lambda>R. h_num R = h) b" and rest: "settled (concat bs)"
    and fin: "list_ex ends_scan b \<longrightarrow> bs = []"
    by (auto simp: batch_ok_def)
  have "\<forall>x \<in> set b. h_last x \<longrightarrow> (\<forall>y \<in> set (concat bs). h_num y \<le> h_num x)"
  proof (intro ballI impI)
    fix x y assume "x \<in> set b" "h_last x" "y \<in> set (concat bs)"
    then have "list_ex ends_scan b" by (auto simp: list_ex_iff ends_scan_def)
    with fin \<open>y \<in> set (concat bs)\<close> show "h_num y \<le> h_num x" by simp
  qed
  with settled_same_num [OF b] rest show ?case by (simp add: settled_append)
qed

lemma MRun_loop_bound:
  "MRun_loop n w h mx cnt s = (rs, e) \<Longrightarrow> list_all (\<lambda>R. h_num R \<le> mx) rs"
proof (induction n arbitrary: h mx cnt s rs e)
  case 0
  then show ?case by simp
next
  case (Suc n)
  show ?case
  proof (cases "h \<le> mx")
    case False
    with Suc.prems Suc.IH [of 1 mx "cnt + 1" s rs e] show ?thesis
      by (auto simp: Let_def split: if_splits)
  next
    case True
    show ?thesis
    proof (cases "NextHop w s h")
      case None
      with Suc.prems True show ?thesis by simp
    next
      case (Some x)
      show ?thesis
      proof (cases x)
        case Panics
        with Suc.prems True Some show ?thesis by simp
      next
        case (Returns p)
        obtain hop0 s1 where p: "p = (hop0, s1)" by (cases p)
        have nh: "NextHop w s h = Some (Returns (hop0, s1))" using Some Returns p by simp
        define hop1 where "hop1 = (case ASN_cache w (tick s1) (h_ip hop0) of
                               Some wh \<Rightarrow> hop0\<lparr>h_whois := wh\<rparr> | None \<Rightarrow> hop0)"
        have num: "h_num hop1 = h"
          using NextHop_num [OF nh] by (simp add: hop1_def split: option.splits)
        define mx1 where "mx1 = (if h_last hop1 \<and> mx = maxTTL (step s1) then h else mx)"
        have mx1: "mx1 \<le> mx" using True by (simp add: mx1_def)
        show ?thesis
        proof (cases "chan_closed w (tick (step s1))")
          case True
          with Suc.prems \<open>h \<le> mx\<close> nh show ?thesis by (simp add: Let_def)
        next
          case False
          obtain rs' e' where rec: "MRun_loop n w (h + 1) mx1 cnt (step (step s1)) = (rs', e')"
            by (cases "MRun_loop n w (h + 1) mx1 cnt (step (step s1))")
          with Suc.prems \<open>h \<le> mx\<close> nh False have rs: "rs = hop1 # rs'"
            by (simp add: Let_def hop1_def mx1_def)
          from Suc.IH [OF rec] mx1 have "list_all (\<lambda>R. h_num R \<le> mx) rs'"
            by (auto simp: list_all_iff)
          with rs num True show ?thesis by simp
        qed
      qed
    qed
  qed
qed

lemma MRun_loop_settled:
  "MRun_loop n w h mx cnt s = (rs, e) \<Longrightarrow> mx = maxTTL s \<Longrightarrow> settled_by_first rs"
proof (induction n arbitrary: h mx cnt s rs e)
  case 0
  then show ?case by simp
next
  case (Suc n)
  show ?case
  proof (cases "h \<le> mx")
    case False
    with Suc.prems Suc.IH [of 1 mx "cnt + 1" s rs e] show ?thesis
      by (auto simp: Let_def split: if_splits)
  next
    case True
    show ?thesis
    proof (cases "NextHop w s h")
      case None
      with Suc.prems True show ?thesis by simp
    next
      case (Some x)
      show ?thesis
      proof (cases x)
        case Panics
        with Suc.prems True Some show ?thesis by simp
      next
        case (Returns p)
        obtain hop0 s1 where p: "p = (hop0, s1)" by (cases p)
        have nh: "NextHop w s h = Some (Returns (hop0, s1))" using Some Returns p by simp
        define hop1 where "hop1 = (case ASN_cache w (tick s1) (h_ip hop0) of
                               Some wh \<Rightarrow> hop0\<lparr>h_whois := wh\<rparr> | None \<Rightarrow> hop0)"
        have num: "h_num hop1 = h"
          using NextHop_num [OF nh] by (simp add: hop1_def split: option.splits)
        have keep: "maxTTL (step s1) = maxTTL s" "maxTTL (step (step s1)) = maxTTL s"
          using NextHop_config [OF nh] by (auto dest!: config_maxTTL)
        define mx1 where "mx1 = (if h_last hop1 \<and> mx = maxTTL (step s1) then h else mx)"
        show ?thesis
        proof (cases "chan_closed w (tick (step s1))")
          case True
          with Suc.prems \<open>h \<le> mx\<close> nh show ?thesis by (simp add: Let_def)
        next
          case False
          obtain rs' e' where rec: "MRun_loop n w (h + 1) mx1 cnt (step (step s1)) = (rs', e')"
            by (cases "MRun_loop n w (h + 1) mx1 cnt (step (step s1))")
          with Suc.prems(1) \<open>h \<le> mx\<close> nh False have rs: "rs = hop1 # rs'"
            by (simp add: Let_def hop1_def mx1_def)
          show ?thesis
          proof (cases "h_last hop1")
            case True
            with Suc.prems(2) keep have "mx1 = h" by (simp add: mx1_def)
            with MRun_loop_bound [OF rec] have "list_all (\<lambda>q. h_num q \<le> h_num hop1) rs'"
              by (simp add: num)
            with rs True show ?thesis by simp
          next
            case nl: False
            then have "mx1 = maxTTL (step (step s1))"
              using Suc.prems(2) keep by (simp add: mx1_def)
            from Suc.IH [OF rec this] rs nl show ?thesis by simp
          qed
        qed
      qed
    qed
  qed
qed

text \<open>
  C4, as amended. In a single-pass scan, once a result with \<^verbatim>\<open>last\<close> set has been
  sent, no result with a larger \<^verbatim>\<open>num\<close> is sent: this holds of the batches as they
  are sent, and also of the batches as a consumer finds them that reads each one when
  it is sent or when a later one is. In a continuous scan it holds of the first result
  with \<^verbatim>\<open>last\<close> set: after it, no result has a \<^verbatim>\<open>num\<close> larger than its own.
\<close>

theorem last_bounds_later_hops:
  "(Run w s retry = (err, xs, e) \<longrightarrow>
      (\<forall>i j. i < j \<and> j < length (concat (as_sent xs)) \<and> h_last (concat (as_sent xs) ! i)
             \<longrightarrow> h_num (concat (as_sent xs) ! j) \<le> h_num (concat (as_sent xs) ! i)))
   \<and> (Run w s retry = (err, xs, e) \<and> (\<forall>k < length xs. k \<le> at k \<and> at k < length xs) \<longrightarrow>
      (\<forall>i j. i < j \<and> j < length (concat (reads xs at)) \<and> h_last (concat (reads xs at) ! i)
             \<longrightarrow> h_num (concat (reads xs at) ! j) \<le> h_num (concat (reads xs at) ! i)))
   \<and> (MRun n w s = (err', rs, e') \<longrightarrow>
      (\<forall>i j. i < j \<and> j < length rs \<and> h_last (rs ! i) \<and> (\<forall>k < i. \<not> h_last (rs ! k))
             \<longrightarrow> h_num (rs ! j) \<le> h_num (rs ! i)))"
proof (intro conjI impI allI)
  fix i j
  assume run: "Run w s retry = (err, xs, e)"
    and ij: "i < j \<and> j < length (concat (as_sent xs)) \<and> h_last (concat (as_sent xs) ! i)"
  have "settled (concat (as_sent xs))"
    using Run_sendings(1) [OF run] by (rule batches_ok_settled)
  with ij show "h_num (concat (as_sent xs) ! j) \<le> h_num (concat (as_sent xs) ! i)"
    by (auto intro: settled_nth)
next
  fix i j
  assume run: "Run w s retry = (err, xs, e) \<and> (\<forall>k < length xs. k \<le> at k \<and> at k < length xs)"
    and ij: "i < j \<and> j < length (concat (reads xs at)) \<and> h_last (concat (reads xs at) ! i)"
  from run have r: "Run w s retry = (err, xs, e)"
    and at: "\<forall>k < length xs. k \<le> at k \<and> at k < length xs" by blast+
  from ij have "i < j" "j < length (concat (reads xs at))" "h_last (concat (reads xs at) ! i)"
    by blast+
  with r at show "h_num (concat (reads xs at) ! j) \<le> h_num (concat (reads xs at) ! i)"
    by (rule Run_reads_settled)
next
  fix i j
  assume run: "MRun n w s = (err', rs, e')"
    and ij: "i < j \<and> j < length rs \<and> h_last (rs ! i) \<and> (\<forall>k < i. \<not> h_last (rs ! k))"
  have "settled_by_first rs"
  proof (cases "Bind w s")
    case (Pair be s1)
    show ?thesis
    proof (cases be)
      case (Some x)
      with run Pair show ?thesis by (simp add: MRun_def)
    next
      case None
      obtain rs' e1 where rl: "MRun_loop n w 1 (maxTTL s) 0 s1 = (rs', e1)"
        by (cases "MRun_loop n w 1 (maxTTL s) 0 s1")
      with run Pair None have rs: "rs = rs'" by (simp add: MRun_def)
      have "maxTTL s = maxTTL s1"
        using Pair by (auto dest!: Bind_config config_maxTTL)
      from MRun_loop_settled [OF rl this] rs show ?thesis by simp
    qed
  qed
  with ij show "h_num (rs ! j) \<le> h_num (rs ! i)"
    by (auto intro: settled_by_first_nth)
qed

lemma Run_echo:
  "as_sent (fst (snd (Run echo_world (start tracer0) 3)))
   = [[echo_hop, timeout_hop 1, timeout_hop 1]]"
  by code_simp

lemma Run_loss_found:
  "nums_lasts (concat (reads (fst (snd (Run loss_world long_machine 1))) (when_closed 2)))
   = [(2, True), (2, True)]"
  by code_simp

lemma Run_loss_length: "length (fst (snd (Run loss_world long_machine 1))) = 2"
  by code_simp

lemma MRun_loss:
  "nums_lasts (fst (snd (MRun 5 loss_world long_machine)))
   = [(1, False), (2, True), (1, True), (2, True)]"
  by code_simp

lemma nums_lasts_nth:
  "k < length rs \<Longrightarrow> nums_lasts rs ! k = (h_num (rs ! k), h_last (rs ! k))"
  by (simp add: nums_lasts_def)

lemma nums_lasts_length: "length (nums_lasts rs) = length rs"
  by (simp add: nums_lasts_def)

theorem last_bounds_later_hops_witness:
  "as_sent (fst (snd (Run echo_world (start tracer0) 3)))
     = [[echo_hop, timeout_hop 1, timeout_hop 1]]
   \<and> h_last echo_hop
   \<and> h_num (timeout_hop 1) \<le> h_num echo_hop
   \<and> length (fst (snd (Run loss_world long_machine 1))) = 2
   \<and> nums_lasts (concat (reads (fst (snd (Run loss_world long_machine 1))) (when_closed 2)))
       = [(2, True), (2, True)]
   \<and> h_num (concat (reads (fst (snd (Run loss_world long_machine 1))) (when_closed 2)) ! 1)
       \<le> h_num (concat (reads (fst (snd (Run loss_world long_machine 1))) (when_closed 2)) ! 0)
   \<and> nums_lasts (fst (snd (MRun 5 loss_world long_machine)))
       = [(1, False), (2, True), (1, True), (2, True)]
   \<and> h_num (fst (snd (MRun 5 loss_world long_machine)) ! 3)
       \<le> h_num (fst (snd (MRun 5 loss_world long_machine)) ! 1)"
proof -
  let ?xs = "fst (snd (Run echo_world (start tracer0) 3))"
  let ?ys = "fst (snd (Run loss_world long_machine 1))"
  let ?fs = "concat (reads ?ys (when_closed 2))"
  let ?rs = "fst (snd (MRun 5 loss_world long_machine))"
  have x: "Run echo_world (start tracer0) 3
           = (fst (Run echo_world (start tracer0) 3), ?xs,
              snd (snd (Run echo_world (start tracer0) 3)))"
    by simp
  have y: "Run loss_world long_machine 1
           = (fst (Run loss_world long_machine 1), ?ys, snd (snd (Run loss_world long_machine 1)))"
    by simp
  have m: "MRun 5 loss_world long_machine
           = (fst (MRun 5 loss_world long_machine), ?rs, snd (snd (MRun 5 loss_world long_machine)))"
    by simp
  note th1 = last_bounds_later_hops [where w = echo_world and s = "start tracer0" and retry = 3
      and err = "fst (Run echo_world (start tracer0) 3)" and xs = "?xs"
      and e = "snd (snd (Run echo_world (start tracer0) 3))"]
  note th2 = last_bounds_later_hops [where w = loss_world and s = long_machine and retry = 1
      and err = "fst (Run loss_world long_machine 1)" and xs = "?ys"
      and e = "snd (snd (Run loss_world long_machine 1))" and at = "when_closed 2"]
  note th3 = last_bounds_later_hops [where w = loss_world and s = long_machine and n = 5
      and err' = "fst (MRun 5 loss_world long_machine)" and rs = "?rs"
      and e' = "snd (snd (MRun 5 loss_world long_machine))"]
  have l: "h_last echo_hop" by (simp add: echo_hop_def)
  from th1 x
  have "\<forall>i j. i < j \<and> j < length (concat (as_sent ?xs)) \<and> h_last (concat (as_sent ?xs) ! i)
             \<longrightarrow> h_num (concat (as_sent ?xs) ! j) \<le> h_num (concat (as_sent ?xs) ! i)" by blast
  from this [THEN spec, of 0, THEN spec, of 1] l
  have a: "h_num (timeout_hop 1) \<le> h_num echo_hop" by (simp add: Run_echo)
  have at: "\<forall>k < length ?ys. k \<le> when_closed 2 k \<and> when_closed 2 k < length ?ys"
    by (simp add: Run_loss_length when_closed_def)
  have lf: "length ?fs = 2"
    using nums_lasts_length [of ?fs] by (simp add: Run_loss_found)
  have f0: "(h_num (?fs ! 0), h_last (?fs ! 0)) = (2, True)"
    using nums_lasts_nth [of 0 ?fs] lf by (simp add: Run_loss_found)
  from th2 y at
  have "\<forall>i j. i < j \<and> j < length ?fs \<and> h_last (?fs ! i)
             \<longrightarrow> h_num (?fs ! j) \<le> h_num (?fs ! i)" by blast
  from this [THEN spec, of 0, THEN spec, of 1] lf f0
  have c: "h_num (?fs ! 1) \<le> h_num (?fs ! 0)" by simp
  have len: "length ?rs = 4"
    using nums_lasts_length [of ?rs] by (simp add: MRun_loss)
  have 0: "(h_num (?rs ! 0), h_last (?rs ! 0)) = (1, False)"
    using nums_lasts_nth [of 0 ?rs] len by (simp add: MRun_loss)
  have 1: "(h_num (?rs ! 1), h_last (?rs ! 1)) = (2, True)"
    using nums_lasts_nth [of 1 ?rs] len by (simp add: MRun_loss)
  from th3 m
  have "\<forall>i j. i < j \<and> j < length ?rs \<and> h_last (?rs ! i) \<and> (\<forall>k < i. \<not> h_last (?rs ! k))
             \<longrightarrow> h_num (?rs ! j) \<le> h_num (?rs ! i)" by blast
  from this [THEN spec, of 1, THEN spec, of 3] len 0 1
  have b: "h_num (?rs ! 3) \<le> h_num (?rs ! 1)" by simp
  show ?thesis using Run_echo l a Run_loss_length Run_loss_found c MRun_loss b by blast
qed

text \<open>
  C4 as stated fails in a continuous scan. The reply to the first probe of hop 1 is
  lost and hop 2 reaches the target, so the bound drops from 30 to 2; in the second
  cycle hop 1 reaches the target, the bound stays at 2 (it is lowered only while it
  equals \<^verbatim>\<open>maxTTL\<close>), and hop 2 is probed and sent after a result of hop 1 with \<^verbatim>\<open>last\<close>
  set.
\<close>

theorem continuous_scan_counterexample:
  "nums_lasts (fst (snd (MRun 5 loss_world long_machine)))
     = [(1, False), (2, True), (1, True), (2, True)]
   \<and> h_last (fst (snd (MRun 5 loss_world long_machine)) ! 2)
   \<and> h_num (fst (snd (MRun 5 loss_world long_machine)) ! 2)
       < h_num (fst (snd (MRun 5 loss_world long_machine)) ! 3)"
proof -
  let ?rs = "fst (snd (MRun 5 loss_world long_machine))"
  have len: "length ?rs = 4"
    using nums_lasts_length [of ?rs] by (simp add: MRun_loss)
  have 2: "(h_num (?rs ! 2), h_last (?rs ! 2)) = (1, True)"
    using nums_lasts_nth [of 2 ?rs] len by (simp add: MRun_loss)
  have 3: "(h_num (?rs ! 3), h_last (?rs ! 3)) = (2, True)"
    using nums_lasts_nth [of 3 ?rs] len by (simp add: MRun_loss)
  show ?thesis using MRun_loss 2 3 by simp
qed

end
